theory Spec2Isabelle
  imports Complex_Main "HOL-Library.Monad_Syntax" "HOL-Library.AList"
begin

section \<open>JavaScript values\<close>

text \<open>
  The batch handler of \<^verbatim>\<open>client/src/App.tsx\<close> works on \<^verbatim>\<open>response.data\<close>, the parsed
  JSON body of the server's answer, typed \<^verbatim>\<open>any\<close>. Numbers are IEEE 754 doubles in the
  program. Here a finite number is the rational it denotes, next to the two infinities
  and NaN, and every addition and division rounds its exact result to the nearest
  double. Zero has no sign here: the program never divides by a number it computed, and
  a negative zero prints, compares and tests as zero does.
\<close>

datatype jsnum = NaN | NegInf | Fin rat | PosInf

text \<open>The number of binary digits of a positive integer.\<close>

function bit_length :: "int \<Rightarrow> int" where
  "bit_length n = (if n \<le> 0 then 0 else bit_length (n div 2) + 1)"
  by pat_completeness auto

termination
  by (relation "measure nat") auto

declare bit_length.simps [simp del]

text \<open>The exponent \<open>e\<close> of a positive rational \<open>a\<close>: the power of two at or below it.\<close>

definition binary_exponent :: "rat \<Rightarrow> int" where
  "binary_exponent a =
     (let k = bit_length (fst (quotient_of a)) - bit_length (snd (quotient_of a))
      in if 2 powi k \<le> a then k else k - 1)"

text \<open>The nearest integer, a tie going to the even one.\<close>

definition round_half_even :: "rat \<Rightarrow> int" where
  "round_half_even x =
     (let f = \<lfloor>x\<rfloor>; r = x - of_int f
      in if r < 1 / 2 then f else if 1 / 2 < r then f + 1 else if even f then f else f + 1)"

text \<open>
  The double nearest a rational: a significand of 53 binary digits, fewer below the
  smallest normal number, where the spacing is that of exponent -1074; a result of
  magnitude \<open>2\<^sup>1\<^sup>0\<^sup>2\<^sup>4\<close> or more is an infinity. With \<open>m\<close> the significand and
  \<open>p\<close> its exponent, that magnitude is reached when \<open>p\<close> and the number of binary
  digits of \<open>m\<close> add up to more than 1024 (lemma \<open>round_to_double_value\<close>).
\<close>

definition round_to_double :: "rat \<Rightarrow> jsnum" where
  "round_to_double q =
     (if q = 0 then Fin 0
      else
        (let a = \<bar>q\<bar>;
             p = max (binary_exponent a - 52) (- 1074);
             m = round_half_even (a / 2 powi p);
             v = of_int m * 2 powi p
         in if 1024 < p + bit_length m then (if q < 0 then NegInf else PosInf)
            else Fin (if q < 0 then - v else v)))"

text \<open>\<^verbatim>\<open>x + y\<close> on numbers.\<close>

fun num_add :: "jsnum \<Rightarrow> jsnum \<Rightarrow> jsnum" where
  "num_add (Fin a) (Fin b) = round_to_double (a + b)"
| "num_add NaN _ = NaN"
| "num_add _ NaN = NaN"
| "num_add PosInf NegInf = NaN"
| "num_add NegInf PosInf = NaN"
| "num_add PosInf _ = PosInf"
| "num_add _ PosInf = PosInf"
| "num_add NegInf _ = NegInf"
| "num_add _ NegInf = NegInf"

text \<open>Division by \<^verbatim>\<open>results.length\<close>, which is positive where the program divides.\<close>

fun num_div_length :: "jsnum \<Rightarrow> nat \<Rightarrow> jsnum" where
  "num_div_length (Fin a) n = round_to_double (a / of_nat n)"
| "num_div_length x n = x"

text \<open>
  \<^verbatim>\<open>Math.round\<close>: the nearest integer, a tie going up. The result is exact: it is a
  double whenever the argument is one.
\<close>

fun math_round :: "jsnum \<Rightarrow> jsnum" where
  "math_round (Fin a) = Fin (of_int \<lfloor>a + 1 / 2\<rfloor>)"
| "math_round x = x"

text \<open>\<^verbatim>\<open>x >= k\<close> and \<^verbatim>\<open>x > k\<close> for a number \<open>x\<close> and a finite constant \<open>k\<close>.\<close>

fun num_ge :: "jsnum \<Rightarrow> rat \<Rightarrow> bool" where
  "num_ge (Fin a) k = (k \<le> a)"
| "num_ge PosInf k = True"
| "num_ge NegInf k = False"
| "num_ge NaN k = False"

fun num_gt :: "jsnum \<Rightarrow> rat \<Rightarrow> bool" where
  "num_gt (Fin a) k = (k < a)"
| "num_gt PosInf k = True"
| "num_gt NegInf k = False"
| "num_gt NaN k = False"

datatype json =
    JUndefined
  | JNull
  | JBool bool
  | JNum jsnum
  | JStr string
  | JArr "json list"
  | JObj "(string \<times> json) list"

text \<open>Truthiness, as \<^verbatim>\<open>!x\<close>, \<^verbatim>\<open>x && y\<close>, \<^verbatim>\<open>x || y\<close> and \<^verbatim>\<open>filter(Boolean)\<close> read it.\<close>

fun truthy :: "json \<Rightarrow> bool" where
  "truthy JUndefined = False"
| "truthy JNull = False"
| "truthy (JBool b) = b"
| "truthy (JNum n) = (n \<noteq> NaN \<and> n \<noteq> Fin 0)"
| "truthy (JStr s) = (s \<noteq> [])"
| "truthy (JArr xs) = True"
| "truthy (JObj kv) = True"

text \<open>\<^verbatim>\<open>a || b\<close>.\<close>

definition js_or :: "json \<Rightarrow> json \<Rightarrow> json" where
  "js_or a b = (if truthy a then a else b)"

fun is_number :: "json \<Rightarrow> bool" where
  "is_number (JNum n) = True"
| "is_number v = False"

fun is_array :: "json \<Rightarrow> bool" where
  "is_array (JArr xs) = True"
| "is_array v = False"

fun is_string :: "json \<Rightarrow> bool" where
  "is_string (JStr s) = True"
| "is_string v = False"

definition nullish :: "json \<Rightarrow> bool" where
  "nullish v = (v = JUndefined \<or> v = JNull)"

text \<open>The own property \<open>k\<close> of an object literal, \<^verbatim>\<open>undefined\<close> when it has none.\<close>

definition field :: "(string \<times> json) list \<Rightarrow> string \<Rightarrow> json" where
  "field kv k = (case map_of kv k of None \<Rightarrow> JUndefined | Some v \<Rightarrow> v)"

text \<open>
  Reading the property \<open>k\<close> of a value, for the names this program reads (none of them an
  array index or a name the prototypes define, \<^verbatim>\<open>length\<close> apart). Reading a property of
  \<^verbatim>\<open>null\<close> or \<^verbatim>\<open>undefined\<close> throws a TypeError: \<open>None\<close>. The length of a string counts its
  characters as the model has them; the program only compares it with zero.
\<close>

fun get_prop :: "json \<Rightarrow> string \<Rightarrow> json option" where
  "get_prop JUndefined k = None"
| "get_prop JNull k = None"
| "get_prop (JObj kv) k = Some (field kv k)"
| "get_prop (JArr xs) k = Some (if k = ''length'' then JNum (Fin (of_nat (length xs))) else JUndefined)"
| "get_prop (JStr s) k = Some (if k = ''length'' then JNum (Fin (of_nat (length s))) else JUndefined)"
| "get_prop (JBool b) k = Some JUndefined"
| "get_prop (JNum n) k = Some JUndefined"

text \<open>\<^verbatim>\<open>Object.values\<close> of a truthy value.\<close>

fun object_values :: "json \<Rightarrow> json list" where
  "object_values (JObj kv) = map (field kv) (remdups (map fst kv))"
| "object_values (JArr xs) = xs"
| "object_values (JStr s) = map (\<lambda>c. JStr [c]) s"
| "object_values v = []"

subsection \<open>Coercions\<close>

text \<open>
  Two conversions belong to the JavaScript runtime and not to this program: the decimal
  text of a number and the number a string denotes. They are parameters of the model.
\<close>

record js_runtime =
  num_to_string :: "jsnum \<Rightarrow> string"
  string_to_number :: "string \<Rightarrow> jsnum"

fun join :: "'a list \<Rightarrow> 'a list list \<Rightarrow> 'a list" where
  "join sep [] = []"
| "join sep [s] = s"
| "join sep (s # t # ss) = s @ sep @ join sep (t # ss)"

text \<open>
  \<^verbatim>\<open>ToString\<close>. An array is joined with commas, \<^verbatim>\<open>null\<close> and \<^verbatim>\<open>undefined\<close> elements
  printing as nothing. A parsed object prints as \<^verbatim>\<open>[object Object]\<close>, unless it has a
  property \<^verbatim>\<open>toString\<close> of its own: that is no function, and the conversion throws.
\<close>

fun to_string :: "js_runtime \<Rightarrow> json \<Rightarrow> string option" where
  "to_string rt JUndefined = Some ''undefined''"
| "to_string rt JNull = Some ''null''"
| "to_string rt (JBool b) = Some (if b then ''true'' else ''false'')"
| "to_string rt (JNum n) = Some (num_to_string rt n)"
| "to_string rt (JStr s) = Some s"
| "to_string rt (JArr xs) =
     map_option (join '','')
       (those (map (\<lambda>v. if v = JUndefined \<or> v = JNull then Some [] else to_string rt v) xs))"
| "to_string rt (JObj kv) =
     (if ''toString'' \<in> fst ` set kv then None else Some ''[object Object]'')"

text \<open>\<^verbatim>\<open>ToPrimitive\<close>: arrays and objects become their strings.\<close>

fun to_primitive :: "js_runtime \<Rightarrow> json \<Rightarrow> json option" where
  "to_primitive rt (JArr xs) = map_option JStr (to_string rt (JArr xs))"
| "to_primitive rt (JObj kv) = map_option JStr (to_string rt (JObj kv))"
| "to_primitive rt v = Some v"

fun to_number :: "js_runtime \<Rightarrow> json \<Rightarrow> jsnum option" where
  "to_number rt JUndefined = Some NaN"
| "to_number rt JNull = Some (Fin 0)"
| "to_number rt (JBool b) = Some (Fin (if b then 1 else 0))"
| "to_number rt (JNum n) = Some n"
| "to_number rt (JStr s) = Some (string_to_number rt s)"
| "to_number rt (JArr xs) = map_option (string_to_number rt) (to_string rt (JArr xs))"
| "to_number rt (JObj kv) = map_option (string_to_number rt) (to_string rt (JObj kv))"

text \<open>\<^verbatim>\<open>v >= k\<close> and \<^verbatim>\<open>v > k\<close> for any value \<open>v\<close> and a numeric literal \<open>k\<close>.\<close>

definition js_ge :: "js_runtime \<Rightarrow> json \<Rightarrow> rat \<Rightarrow> bool option" where
  "js_ge rt v k = map_option (\<lambda>n. num_ge n k) (to_number rt v)"

definition js_gt :: "js_runtime \<Rightarrow> json \<Rightarrow> rat \<Rightarrow> bool option" where
  "js_gt rt v k = map_option (\<lambda>n. num_gt n k) (to_number rt v)"

text \<open>\<^verbatim>\<open>a + b\<close>: concatenation as soon as one side is a string, addition otherwise.\<close>

definition js_add :: "js_runtime \<Rightarrow> json \<Rightarrow> json \<Rightarrow> json option" where
  "js_add rt a b =
     do {
       pa \<leftarrow> to_primitive rt a;
       pb \<leftarrow> to_primitive rt b;
       if is_string pa \<or> is_string pb then
         do {
           sa \<leftarrow> to_string rt pa;
           sb \<leftarrow> to_string rt pb;
           Some (JStr (sa @ sb))
         }
       else
         do {
           na \<leftarrow> to_number rt pa;
           nb \<leftarrow> to_number rt pb;
           Some (JNum (num_add na nb))
         }
     }"

section \<open>The batch handler\<close>

text \<open>
  \<^verbatim>\<open>handleBatchUpload\<close> (App.tsx, lines 244 to 375), from the point where the server has
  answered: \<open>files\<close> are the names of the selected files, \<open>claim\<close> is the claim the
  user typed, \<open>d\<close> is \<^verbatim>\<open>response.data\<close>.
\<close>

subsection \<open>The old format: a \<^verbatim>\<open>results\<close> array, merged\<close>

text \<open>\<^verbatim>\<open>r.authenticity_score\<close>.\<close>

definition score_of :: "json \<Rightarrow> json option" where
  "score_of r = get_prop r ''authenticity_score''"

text \<open>\<^verbatim>\<open>r.category_scores?.k\<close>.\<close>

definition category_of :: "string \<Rightarrow> json \<Rightarrow> json option" where
  "category_of k r =
     do {
       cs \<leftarrow> get_prop r ''category_scores'';
       if nullish cs then Some JUndefined else get_prop cs k
     }"

text \<open>\<^verbatim>\<open>results.reduce((sum, r) => sum + (f(r) || 0), 0)\<close>.\<close>

fun reduce_sum :: "js_runtime \<Rightarrow> (json \<Rightarrow> json option) \<Rightarrow> json \<Rightarrow> json list \<Rightarrow> json option" where
  "reduce_sum rt f acc [] = Some acc"
| "reduce_sum rt f acc (r # rs) =
     do {
       v \<leftarrow> f r;
       acc' \<leftarrow> js_add rt acc (js_or v (JNum (Fin 0)));
       reduce_sum rt f acc' rs
     }"

text \<open>\<^verbatim>\<open>Math.round(results.reduce(...) / results.length)\<close>.\<close>

definition average :: "js_runtime \<Rightarrow> (json \<Rightarrow> json option) \<Rightarrow> json list \<Rightarrow> jsnum option" where
  "average rt f results =
     do {
       total \<leftarrow> reduce_sum rt f (JNum (Fin 0)) results;
       n \<leftarrow> to_number rt total;
       Some (math_round (num_div_length n (length results)))
     }"

text \<open>\<^verbatim>\<open>results.flatMap(r => r[k] || [])\<close>: an array is spliced in, anything else is one element.\<close>

fun flat_map_field :: "string \<Rightarrow> json list \<Rightarrow> json list option" where
  "flat_map_field k [] = Some []"
| "flat_map_field k (r # rs) =
     do {
       v \<leftarrow> get_prop r k;
       rest \<leftarrow> flat_map_field k rs;
       Some ((case js_or v (JArr []) of JArr ys \<Rightarrow> ys | w \<Rightarrow> [w]) @ rest)
     }"

text \<open>
  \<^verbatim>\<open>[...new Set(xs)]\<close>. A set compares primitives by value; two parsed arrays or objects
  are never the same object, so each of them stays.
\<close>

fun same_value_zero :: "json \<Rightarrow> json \<Rightarrow> bool" where
  "same_value_zero (JArr xs) b = False"
| "same_value_zero (JObj kv) b = False"
| "same_value_zero a b = (a = b)"

definition set_add :: "json list \<Rightarrow> json \<Rightarrow> json list" where
  "set_add seen x = (if list_ex (\<lambda>y. same_value_zero y x) seen then seen else seen @ [x])"

definition new_set :: "json list \<Rightarrow> json list" where
  "new_set xs = foldl set_add [] xs"

text \<open>\<^verbatim>\<open>results.map(r => r[k])\<close>.\<close>

fun map_field :: "string \<Rightarrow> json list \<Rightarrow> json list option" where
  "map_field k [] = Some []"
| "map_field k (r # rs) =
     do {
       v \<leftarrow> get_prop r k;
       rest \<leftarrow> map_field k rs;
       Some (v # rest)
     }"

text \<open>\<^verbatim>\<open>xs.join(sep)\<close>: \<^verbatim>\<open>null\<close> and \<^verbatim>\<open>undefined\<close> print as nothing.\<close>

definition array_join :: "js_runtime \<Rightarrow> string \<Rightarrow> json list \<Rightarrow> string option" where
  "array_join rt sep xs =
     map_option (join sep) (those (map (\<lambda>v. if nullish v then Some [] else to_string rt v) xs))"

text \<open>\<^verbatim>\<open>score >= 70 ? 'Low' : score >= 40 ? 'Medium' : 'High'\<close> for a number.\<close>

definition risk_of_number :: "jsnum \<Rightarrow> string" where
  "risk_of_number score =
     (if num_ge score 70 then ''Low'' else if num_ge score 40 then ''Medium'' else ''High'')"

definition category_keys :: "string list" where
  "category_keys =
     [''multimodal_match'', ''document_forensics'', ''visual_artifacts'',
      ''logical_consistency'', ''synthetic_signs'', ''shadow_perspective'']"

text \<open>The six averages of lines 281 to 288, in the order of the object literal.\<close>

fun average_categories :: "js_runtime \<Rightarrow> json list \<Rightarrow> string list \<Rightarrow> (string \<times> json) list option" where
  "average_categories rt results [] = Some []"
| "average_categories rt results (k # ks) =
     do {
       a \<leftarrow> average rt (category_of k) results;
       rest \<leftarrow> average_categories rt results ks;
       Some ((k, JNum a) # rest)
     }"

text \<open>Lines 274 to 305: the unified result built from the array \<open>results\<close>.\<close>

definition merge_results :: "js_runtime \<Rightarrow> string list \<Rightarrow> string \<Rightarrow> json list \<Rightarrow> (string \<times> json) list option" where
  "merge_results rt files claim results =
     do {
       avgScore \<leftarrow> average rt score_of results;
       allReasons \<leftarrow> flat_map_field ''reasons'' results;
       allSignals \<leftarrow> flat_map_field ''signals'' results;
       names \<leftarrow> map_field ''filename'' results;
       avgCategoryScores \<leftarrow> average_categories rt results category_keys;
       verdicts \<leftarrow> map_field ''verdict'' results;
       joined \<leftarrow> array_join rt '' | '' verdicts;
       Some
        (let allFilenames = filter truthy names;
             riskLevel = risk_of_number avgScore;
             n = length results
         in [(''authenticity_score'', JNum avgScore),
             (''risk_level'', JStr riskLevel),
             (''verdict'', JStr (''Unified analysis of '' @ num_to_string rt (Fin (of_nat n))
                 @ '' file'' @ (if n \<noteq> 1 then ''s'' else []) @ '': '' @ joined)),
             (''reasons'', JArr (take 7 allReasons)),
             (''signals'', JArr (take 7 (new_set allSignals))),
             (''category_scores'', JObj avgCategoryScores),
             (''filenames'', JArr (if allFilenames \<noteq> [] then allFilenames else map JStr files)),
             (''claim'', JStr claim),
             (''batch_size'', JNum (Fin (of_nat n))),
             (''analysis_type'', JStr ''multimodal_batch_combined'')])
     }"

subsection \<open>The new format: one unified result, its fields ensured\<close>

text \<open>\<^verbatim>\<open>batchResult.k = v\<close> on the properties of an object.\<close>

definition assign :: "string \<Rightarrow> json \<Rightarrow> (string \<times> json) list \<Rightarrow> (string \<times> json) list" where
  "assign k v kv = AList.update k v kv"

text \<open>Lines 311 to 317.\<close>

definition ensure_score :: "(string \<times> json) list \<Rightarrow> (string \<times> json) list" where
  "ensure_score b =
     (let s = field b ''authenticity_score'' in
      if \<not> is_number s \<or> s = JNum (Fin 0) then
        (if s = JUndefined \<or> s = JNull then assign ''authenticity_score'' (JNum (Fin 0)) b else b)
      else b)"

text \<open>\<^verbatim>\<open>score >= 70 ? 'Low' : score >= 40 ? 'Medium' : 'High'\<close> for any value.\<close>

definition risk_of :: "js_runtime \<Rightarrow> json \<Rightarrow> string option" where
  "risk_of rt score =
     do {
       low \<leftarrow> js_ge rt score 70;
       if low then Some ''Low''
       else do { medium \<leftarrow> js_ge rt score 40; Some (if medium then ''Medium'' else ''High'') }
     }"

text \<open>Lines 319 to 322.\<close>

definition ensure_risk_level :: "js_runtime \<Rightarrow> (string \<times> json) list \<Rightarrow> (string \<times> json) list option" where
  "ensure_risk_level rt b =
     do {
       recompute \<leftarrow>
         (if \<not> truthy (field b ''risk_level'') then Some True
          else if field b ''risk_level'' = JStr ''High'' then js_gt rt (field b ''authenticity_score'') 39
          else Some False);
       if recompute then
         do {
           level \<leftarrow> risk_of rt (field b ''authenticity_score'');
           Some (assign ''risk_level'' (JStr level) b)
         }
       else Some b
     }"

definition placeholder_verdict :: string where
  "placeholder_verdict = ''Analysis completed. Review details for specific findings.''"

definition placeholder_reason :: string where
  "placeholder_reason = ''Multimodal analysis completed across all files.''"

definition placeholder_signal :: string where
  "placeholder_signal = ''Cross-file analysis performed.''"

text \<open>Lines 324 to 328.\<close>

definition ensure_verdict :: "js_runtime \<Rightarrow> (string \<times> json) list \<Rightarrow> (string \<times> json) list option" where
  "ensure_verdict rt b =
     (if \<not> truthy (field b ''verdict'') \<or> field b ''verdict'' = JStr placeholder_verdict then
        do {
          positive \<leftarrow> js_gt rt (field b ''authenticity_score'') 0;
          if positive then
            do {
              s \<leftarrow> to_string rt (field b ''authenticity_score'');
              Some (assign ''verdict''
                (JStr (''Unified multimodal analysis completed with '' @ s @ ''% authenticity score.'')) b)
            }
          else Some b
        }
      else Some b)"

text \<open>
  Lines 330 to 335 for \<^verbatim>\<open>reasons\<close> and 337 to 342 for \<^verbatim>\<open>signals\<close>: the same statement
  with another key and another placeholder.
\<close>

definition ensure_list :: "js_runtime \<Rightarrow> string \<Rightarrow> string \<Rightarrow> (string \<times> json) list \<Rightarrow> (string \<times> json) list option" where
  "ensure_list rt k placeholder b =
     (let v = field b k in
      if (case v of JArr xs \<Rightarrow> xs = [] \<or> xs = [JStr placeholder] | _ \<Rightarrow> True) then
        do {
          keep \<leftarrow>
            (if truthy v then
               do { len \<leftarrow> get_prop v ''length''; js_gt rt len 0 }
             else Some False);
          Some (assign k (if keep then v else JArr [JStr placeholder]) b)
        }
      else Some b)"

text \<open>Lines 344 to 354.\<close>

definition ensure_category_scores :: "(string \<times> json) list \<Rightarrow> (string \<times> json) list" where
  "ensure_category_scores b =
     (let cs = field b ''category_scores'' in
      if \<not> truthy cs \<or> list_all (\<lambda>v. v = JNum (Fin 0)) (object_values cs) then
        (let score = js_or (field b ''authenticity_score'') (JNum (Fin 0))
         in assign ''category_scores'' (JObj (map (\<lambda>k. (k, score)) category_keys)) b)
      else b)"

text \<open>Lines 357 to 359.\<close>

definition ensure_filenames :: "string list \<Rightarrow> (string \<times> json) list \<Rightarrow> (string \<times> json) list option" where
  "ensure_filenames files b =
     (let fs = field b ''filenames'' in
      do {
        missing \<leftarrow>
          (if \<not> truthy fs then Some True
           else map_option (\<lambda>len. len = JNum (Fin 0)) (get_prop fs ''length''));
        Some (if missing then assign ''filenames'' (JArr (map JStr files)) b else b)
      })"

definition ensure_fields :: "js_runtime \<Rightarrow> string list \<Rightarrow> (string \<times> json) list \<Rightarrow> (string \<times> json) list option" where
  "ensure_fields rt files b =
     do {
       b2 \<leftarrow> ensure_risk_level rt (ensure_score b);
       b3 \<leftarrow> ensure_verdict rt b2;
       b4 \<leftarrow> ensure_list rt ''reasons'' placeholder_reason b3;
       b5 \<leftarrow> ensure_list rt ''signals'' placeholder_signal b4;
       ensure_filenames files (ensure_category_scores b5)
     }"

subsection \<open>The handler\<close>

text \<open>
  What the handler leaves behind: nothing at all when no file is selected (line 245),
  the message \<^verbatim>\<open>No data received from server\<close> when the answer is falsy (line 366), the
  message of the \<^verbatim>\<open>catch\<close> block when a statement threw (line 370), and otherwise
  \<^verbatim>\<open>setBatchResults([batchResult])\<close>, with the named properties of \<^verbatim>\<open>batchResult\<close>.
\<close>

datatype outcome = Skipped | NoData | Failed | Done "(string \<times> json) list"

text \<open>
  The test of line 270: \<^verbatim>\<open>results\<close> is a non-empty array. Reading \<^verbatim>\<open>results\<close> off a truthy
  value that is no object gives \<^verbatim>\<open>undefined\<close>.
\<close>

definition old_format :: "json \<Rightarrow> json list option" where
  "old_format d =
     (case d of
        JObj b \<Rightarrow> (case field b ''results'' of JArr rs \<Rightarrow> (if rs \<noteq> [] then Some rs else None) | _ \<Rightarrow> None)
      | _ \<Rightarrow> None)"

text \<open>
  A truthy answer. In the new format the first statement that assigns is line 315,
  reached whenever \<^verbatim>\<open>authenticity_score\<close> is missing. A string, a number or \<^verbatim>\<open>true\<close> has
  no such property, and assigning one to a primitive throws a TypeError in strict mode
  (the file is an ES module). An array takes named properties as an object does; it
  starts with none of the names read here.
\<close>

definition unify :: "js_runtime \<Rightarrow> string list \<Rightarrow> string \<Rightarrow> json \<Rightarrow> (string \<times> json) list option" where
  "unify rt files claim d =
     (case old_format d of
        Some results \<Rightarrow> merge_results rt files claim results
      | None \<Rightarrow>
          (case d of
             JObj b \<Rightarrow> ensure_fields rt files b
           | JArr xs \<Rightarrow> ensure_fields rt files []
           | _ \<Rightarrow> None))"

definition handleBatchUpload :: "js_runtime \<Rightarrow> string list \<Rightarrow> string \<Rightarrow> json \<Rightarrow> outcome" where
  "handleBatchUpload rt files claim d =
     (if files = [] then Skipped
      else if \<not> truthy d then NoData
      else (case unify rt files claim d of None \<Rightarrow> Failed | Some b \<Rightarrow> Done b))"

subsection \<open>The conversions of the runtime\<close>

text \<open>
  The theorems below hold for every runtime. Where a concrete input is evaluated, the
  runtime is the one of this section: \<^verbatim>\<open>Number::toString\<close> and \<^verbatim>\<open>StringToNumber\<close> of
  ECMAScript, on strings of characters up to U+00FF.
\<close>

function decimal_length :: "int \<Rightarrow> int" where
  "decimal_length n = (if n \<le> 0 then 0 else decimal_length (n div 10) + 1)"
  by pat_completeness auto

termination
  by (relation "measure nat") auto

declare decimal_length.simps [simp del]

text \<open>The \<open>n\<close> with \<open>10\<^sup>n\<^sup>-\<^sup>1 \<le> a < 10\<^sup>n\<close>, for a positive rational \<open>a\<close>.\<close>

definition decimal_exponent :: "rat \<Rightarrow> int" where
  "decimal_exponent a =
     (let k = decimal_length (fst (quotient_of a)) - decimal_length (snd (quotient_of a))
      in if 10 powi k \<le> a then k + 1 else k)"

text \<open>The decimal digits of a natural number.\<close>

function decimal :: "int \<Rightarrow> string" where
  "decimal n =
     (if n < 10 then [''0123456789'' ! nat n]
      else decimal (n div 10) @ [''0123456789'' ! nat (n mod 10)])"
  by pat_completeness auto

termination
  by (relation "measure nat") auto

declare decimal.simps [simp del]

text \<open>
  \<^verbatim>\<open>Number::toString\<close> looks for the fewest digits \<open>k\<close> and an integer \<open>s\<close> of \<open>k\<close>
  digits such that \<open>s \<times> 10\<^sup>n\<^sup>-\<^sup>k\<close> reads back as the number. Of the integers of \<open>k\<close> digits
  the two around \<open>a / 10\<^sup>n\<^sup>-\<^sup>k\<close> are the candidates, the nearer one first.
\<close>

definition digits_for :: "rat \<Rightarrow> int \<Rightarrow> int \<Rightarrow> int option" where
  "digits_for a n k =
     (let unit = 10 powi (n - k);
          t = a / unit;
          lo = \<lfloor>t\<rfloor>;
          hi = lo + 1;
          down_first = (t - of_int lo < of_int hi - t \<or> (t - of_int lo = of_int hi - t \<and> even lo))
      in List.find (\<lambda>s. round_to_double (of_int s * unit) = Fin a)
           (if down_first then [lo, hi] else [hi, lo]))"

text \<open>Seventeen digits tell any two doubles apart; the last case serves no double.\<close>

fun shortest_digits :: "rat \<Rightarrow> int \<Rightarrow> int list \<Rightarrow> int" where
  "shortest_digits a n [] = \<lfloor>a / 10 powi (n - 17)\<rfloor>"
| "shortest_digits a n (k # ks) =
     (case digits_for a n k of Some s \<Rightarrow> s | None \<Rightarrow> shortest_digits a n ks)"

text \<open>
  The text for the digits \<open>ds\<close> and the exponent \<open>n\<close>: plain digits, digits around a
  point, or the notation with \<^verbatim>\<open>e\<close> when \<open>n\<close> is above 21 or below -5.
\<close>

definition number_text :: "string \<Rightarrow> int \<Rightarrow> string" where
  "number_text ds n =
     (let k = int (length ds) in
      if k \<le> n \<and> n \<le> 21 then ds @ replicate (nat (n - k)) CHR ''0''
      else if 0 < n \<and> n \<le> 21 then take (nat n) ds @ ''.'' @ drop (nat n) ds
      else if - 6 < n \<and> n \<le> 0 then ''0.'' @ replicate (nat (- n)) CHR ''0'' @ ds
      else
        (let e = (if n - 1 < 0 then ''-'' else ''+'') @ decimal \<bar>n - 1\<bar>
         in if k = 1 then ds @ ''e'' @ e else take 1 ds @ ''.'' @ drop 1 ds @ ''e'' @ e))"

text \<open>When one digit was asked for and the upper candidate is ten, the text is that of \<open>10\<^sup>n\<close>.\<close>

definition positive_text :: "rat \<Rightarrow> string" where
  "positive_text a =
     (let n = decimal_exponent a;
          ds = decimal (shortest_digits a n [1 .. 17])
      in if ds = ''10'' then number_text ''1'' (n + 1) else number_text ds n)"

fun number_to_string :: "jsnum \<Rightarrow> string" where
  "number_to_string NaN = ''NaN''"
| "number_to_string PosInf = ''Infinity''"
| "number_to_string NegInf = ''-Infinity''"
| "number_to_string (Fin a) =
     (if a = 0 then ''0'' else if a < 0 then ''-'' @ positive_text (- a) else positive_text a)"

text \<open>A digit of the given base: 0 to 9, then the letters from a on, in either case.\<close>

definition digit_in :: "int \<Rightarrow> char \<Rightarrow> int option" where
  "digit_in base c =
     (let n = (of_char c :: int);
          d = (if 48 \<le> n \<and> n \<le> 57 then n - 48
               else if 97 \<le> n \<and> n \<le> 122 then n - 87
               else if 65 \<le> n \<and> n \<le> 90 then n - 55
               else base)
      in if d < base then Some d else None)"

fun read_digits :: "int \<Rightarrow> int \<Rightarrow> string \<Rightarrow> int option" where
  "read_digits base acc [] = Some acc"
| "read_digits base acc (c # cs) =
     (case digit_in base c of None \<Rightarrow> None | Some d \<Rightarrow> read_digits base (base * acc + d) cs)"

definition is_decimal_digit :: "char \<Rightarrow> bool" where
  "is_decimal_digit c = (digit_in 10 c \<noteq> None)"

text \<open>White space and line ends, as far as they lie below U+0100.\<close>

definition str_white_space :: "char \<Rightarrow> bool" where
  "str_white_space c = ((of_char c :: int) \<in> {9, 10, 11, 12, 13, 32, 160})"

definition trim :: "string \<Rightarrow> string" where
  "trim s = rev (dropWhile str_white_space (rev (dropWhile str_white_space s)))"

definition read_signed_integer :: "string \<Rightarrow> int option" where
  "read_signed_integer s =
     (case s of
        [] \<Rightarrow> None
      | c # cs \<Rightarrow>
          if c = CHR ''-'' then (if cs = [] then None else map_option uminus (read_digits 10 0 cs))
          else if c = CHR ''+'' then (if cs = [] then None else read_digits 10 0 cs)
          else read_digits 10 0 s)"

definition read_exponent :: "string \<Rightarrow> int option" where
  "read_exponent s =
     (case s of
        [] \<Rightarrow> Some 0
      | c # cs \<Rightarrow> if c = CHR ''e'' \<or> c = CHR ''E'' then read_signed_integer cs else None)"

text \<open>
  An unsigned decimal literal: digits, a point and more digits, with digits on at least
  one side of the point, and an exponent part if any. The value is exact.
\<close>

definition read_unsigned :: "string \<Rightarrow> rat option" where
  "read_unsigned s =
     (let whole = takeWhile is_decimal_digit s;
          rest = dropWhile is_decimal_digit s;
          dotted = (rest \<noteq> [] \<and> hd rest = CHR ''.'');
          frac = (if dotted then takeWhile is_decimal_digit (tl rest) else []);
          tail = (if dotted then dropWhile is_decimal_digit (tl rest) else rest)
      in if whole = [] \<and> frac = [] then None
         else
           (case (read_digits 10 0 (whole @ frac), read_exponent tail) of
              (Some m, Some e) \<Rightarrow> Some (of_int m * 10 powi (e - int (length frac)))
            | _ \<Rightarrow> None))"

definition read_radix :: "int \<Rightarrow> string \<Rightarrow> jsnum" where
  "read_radix base ds =
     (if ds = [] then NaN
      else case read_digits base 0 ds of None \<Rightarrow> NaN | Some m \<Rightarrow> round_to_double (of_int m))"

text \<open>
  \<^verbatim>\<open>StringToNumber\<close>: the trimmed text is empty (zero), a literal in base 16, 8 or 2, or a
  decimal literal with a sign if any, \<^verbatim>\<open>Infinity\<close> among them; anything else is NaN.
\<close>

definition string_to_number_js :: "string \<Rightarrow> jsnum" where
  "string_to_number_js s =
     (let t = trim s in
      if t = [] then Fin 0
      else if take 2 t = ''0x'' \<or> take 2 t = ''0X'' then read_radix 16 (drop 2 t)
      else if take 2 t = ''0o'' \<or> take 2 t = ''0O'' then read_radix 8 (drop 2 t)
      else if take 2 t = ''0b'' \<or> take 2 t = ''0B'' then read_radix 2 (drop 2 t)
      else
        (let negative = (hd t = CHR ''-'');
             u = (if hd t = CHR ''-'' \<or> hd t = CHR ''+'' then tl t else t)
         in if u = ''Infinity'' then (if negative then NegInf else PosInf)
            else case read_unsigned u of
                   None \<Rightarrow> NaN
                 | Some q \<Rightarrow> round_to_double (if negative then - q else q)))"

definition decimal_runtime :: js_runtime where
  "decimal_runtime = \<lparr> num_to_string = number_to_string, string_to_number = string_to_number_js \<rparr>"

section \<open>What the specification says of a finding\<close>

text \<open>
  The mapping from score to risk level in the words of the specification: Low if and
  only if the score is at least 70, Medium if and only if it is at least 40 and below
  70, High if and only if it is below 40.
\<close>

definition monotonic_mapping :: "rat \<Rightarrow> string \<Rightarrow> bool" where
  "monotonic_mapping s r =
     (((r = ''Low'') = (70 \<le> s)) \<and> ((r = ''Medium'') = (40 \<le> s \<and> s < 70)) \<and> ((r = ''High'') = (s < 40)))"

text \<open>A score as the specification wants it: an integer between 0 and 100.\<close>

definition clamped_score :: "json \<Rightarrow> bool" where
  "clamped_score v = (\<exists>i::int. v = JNum (Fin (of_int i)) \<and> 0 \<le> i \<and> i \<le> 100)"

text \<open>
  The number a payload's \<^verbatim>\<open>authenticity_score\<close> stands for when it is a finite number,
  or is missing or \<^verbatim>\<open>null\<close> (then zero, by line 315).
\<close>

definition score_number :: "(string \<times> json) list \<Rightarrow> rat option" where
  "score_number b =
     (case field b ''authenticity_score'' of
        JNum (Fin a) \<Rightarrow> Some a
      | JUndefined \<Rightarrow> Some 0
      | JNull \<Rightarrow> Some 0
      | _ \<Rightarrow> None)"

text \<open>
  An element of \<^verbatim>\<open>results\<close> typed as \<^verbatim>\<open>interface AnalysisResult\<close> (lines 6 to 24) types
  it, where any field may be missing or \<^verbatim>\<open>null\<close>: the scores are finite numbers, reasons
  and signals are arrays of strings, verdict and filename are strings.
\<close>

fun number_or_missing :: "json \<Rightarrow> bool" where
  "number_or_missing JUndefined = True"
| "number_or_missing JNull = True"
| "number_or_missing (JNum (Fin a)) = True"
| "number_or_missing v = False"

fun string_or_missing :: "json \<Rightarrow> bool" where
  "string_or_missing JUndefined = True"
| "string_or_missing JNull = True"
| "string_or_missing (JStr s) = True"
| "string_or_missing v = False"

fun strings_or_missing :: "json \<Rightarrow> bool" where
  "strings_or_missing JUndefined = True"
| "strings_or_missing JNull = True"
| "strings_or_missing (JArr xs) = list_all is_string xs"
| "strings_or_missing v = False"

fun categories_or_missing :: "json \<Rightarrow> bool" where
  "categories_or_missing JUndefined = True"
| "categories_or_missing JNull = True"
| "categories_or_missing (JObj c) = list_all (\<lambda>k. number_or_missing (field c k)) category_keys"
| "categories_or_missing v = False"

definition file_result :: "json \<Rightarrow> bool" where
  "file_result r =
     (case r of
        JObj e \<Rightarrow>
          number_or_missing (field e ''authenticity_score'')
          \<and> categories_or_missing (field e ''category_scores'')
          \<and> strings_or_missing (field e ''reasons'')
          \<and> strings_or_missing (field e ''signals'')
          \<and> string_or_missing (field e ''verdict'')
          \<and> string_or_missing (field e ''filename'')
      | _ \<Rightarrow> False)"

text \<open>What a per-file value counts for in a mean: itself, and 0 when it is missing.\<close>

fun counted :: "json \<Rightarrow> rat" where
  "counted (JNum (Fin a)) = a"
| "counted v = 0"

definition file_score :: "json \<Rightarrow> rat" where
  "file_score r = (case r of JObj e \<Rightarrow> counted (field e ''authenticity_score'') | _ \<Rightarrow> 0)"

definition file_category :: "string \<Rightarrow> json \<Rightarrow> rat" where
  "file_category k r =
     (case r of
        JObj e \<Rightarrow> (case field e ''category_scores'' of JObj c \<Rightarrow> counted (field c k) | _ \<Rightarrow> 0)
      | _ \<Rightarrow> 0)"

text \<open>The reasons, or the signals, of one file: the elements of its array, none when it is missing.\<close>

definition file_strings :: "string \<Rightarrow> json \<Rightarrow> json list" where
  "file_strings k r =
     (case r of JObj e \<Rightarrow> (case field e k of JArr xs \<Rightarrow> xs | _ \<Rightarrow> []) | _ \<Rightarrow> [])"

text \<open>
  The arithmetic mean, and what it is for an integer to be the mean rounded to the
  nearest integer with a tie going up.
\<close>

definition mean :: "rat list \<Rightarrow> rat" where
  "mean xs = sum_list xs / of_nat (length xs)"

definition nearest_integer_ties_up :: "rat \<Rightarrow> int \<Rightarrow> bool" where
  "nearest_integer_ties_up q m = (of_int m - 1 / 2 \<le> q \<and> q < of_int m + 1 / 2)"

text \<open>
  The sum as \<^verbatim>\<open>reduce\<close> computes it, from the left, each addition rounded to a double,
  and the rounded mean as line 275 computes it from that sum.
\<close>

definition double_sum :: "jsnum \<Rightarrow> rat list \<Rightarrow> jsnum" where
  "double_sum acc xs = foldl (\<lambda>s x. num_add s (Fin x)) acc xs"

definition double_mean :: "rat list \<Rightarrow> jsnum" where
  "double_mean xs = math_round (num_div_length (double_sum (Fin 0) xs) (length xs))"

text \<open>
  An integer of magnitude at most \<open>2\<^sup>2\<^sup>0\<close>: no sum of fewer than \<open>2\<^sup>3\<^sup>2\<close> such numbers, the
  most an array holds, leaves the range in which every integer is a double. A per-file
  result has whole numbers when its score and its six category scores count as such.
\<close>

definition whole :: "rat \<Rightarrow> bool" where
  "whole x = (of_int \<lfloor>x\<rfloor> = x \<and> \<bar>x\<bar> \<le> 2 ^ 20)"

definition whole_numbers :: "json \<Rightarrow> bool" where
  "whole_numbers r = (whole (file_score r) \<and> list_all (\<lambda>k. whole (file_category k r)) category_keys)"

text \<open>A list with its duplicates removed, the first occurrence of each element staying in place.\<close>

fun first_occurrences :: "'a list \<Rightarrow> 'a list" where
  "first_occurrences [] = []"
| "first_occurrences (x # xs) = x # first_occurrences (filter (\<lambda>y. y \<noteq> x) xs)"


text \<open>Category scores that are absent, or an object all of whose values are zero.\<close>

fun absent_or_all_zero :: "json \<Rightarrow> bool" where
  "absent_or_all_zero JUndefined = True"
| "absent_or_all_zero JNull = True"
| "absent_or_all_zero (JObj c) = list_all (\<lambda>kv. snd kv = JNum (Fin 0)) c"
| "absent_or_all_zero v = False"








section \<open>The report\<close>

text \<open>
  \<^verbatim>\<open>exportToPDF\<close> (App.tsx, lines 377 to 660) lays the current result out with jsPDF.
  Text is a list of UTF-16 code units here, since the sanitizer and the regular
  expressions of the program work on code units. Lengths are rationals, in the unit of
  the document (millimetres by default).
\<close>

type_synonym jstring = "nat list"

definition ascii :: "string \<Rightarrow> jstring" where
  "ascii s = map of_char s"

subsection \<open>Sanitizing\<close>

text \<open>
  \<^verbatim>\<open>sanitizeTextForPDF\<close> (lines 389 to 411). Each \<^verbatim>\<open>replace\<close> of the chain rewrites single
  code units into ASCII text that no later pattern matches, so the chain is one pass
  over the code units: the rupee sign, the euro sign, the pound sign, the yen sign,
  superscript one, two and three, the en dash, the em dash, the ellipsis, and a question
  mark for whatever else lies outside ASCII. The two patterns for quotes replace an
  ASCII quote by itself.
\<close>

definition sanitize_unit :: "nat \<Rightarrow> jstring" where
  "sanitize_unit c =
     (if c = 0x20B9 then ascii ''Rs.''
      else if c = 0x20AC then ascii ''EUR''
      else if c = 0xA3 then ascii ''GBP''
      else if c = 0xA5 then ascii ''JPY''
      else if c = 0xB9 then ascii ''Rs.''
      else if c = 0xB2 \<or> c = 0xB3 then []
      else if c = 0x2013 \<or> c = 0x2014 then ascii ''-''
      else if c = 0x2026 then ascii ''...''
      else if 0x7F < c then ascii ''?''
      else [c])"

definition sanitizeTextForPDF :: "jstring \<Rightarrow> jstring" where
  "sanitizeTextForPDF t = concat (map sanitize_unit t)"

subsection \<open>Risky words\<close>

definition riskyWords :: "jstring list" where
  "riskyWords = map ascii
     [''fraud'', ''tampered'', ''tampering'', ''inconsistent'', ''inconsistency'', ''mismatch'',
      ''mismatched'', ''suspicious'', ''suspicion'', ''fake'', ''falsified'', ''manipulated'',
      ''manipulation'', ''altered'', ''forged'', ''forgery'', ''discrepancy'', ''discrepancies'',
      ''contradiction'', ''contradictory'', ''invalid'', ''illegitimate'', ''unauthorized'',
      ''high risk'', ''low score'', ''failed'', ''failure'', ''error'', ''warning'', ''alert'',
      ''critical'', ''danger'', ''dangerous'', ''unverified'', ''unauthentic'']"

text \<open>
  What \<^verbatim>\<open>\s\<close> matches in a JavaScript regular expression: tab, line feed, vertical tab,
  form feed, carriage return, space, no-break space, and the Unicode spaces and line
  separators.
\<close>

definition is_space :: "nat \<Rightarrow> bool" where
  "is_space c =
     (c \<in> {0x09, 0x0A, 0x0B, 0x0C, 0x0D, 0x20, 0xA0, 0x1680, 0x2028, 0x2029, 0x202F, 0x205F, 0x3000, 0xFEFF}
      \<or> (0x2000 \<le> c \<and> c \<le> 0x200A))"

text \<open>
  \<^verbatim>\<open>text.split(/(\s+)/)\<close>: the pieces between the runs of white space and the runs
  themselves, in order; a text that starts or ends with white space has an empty piece
  there. \<open>cur\<close> is the piece being read, \<open>in_space\<close> says whether it is a run of
  white space.
\<close>

fun split_pieces :: "jstring \<Rightarrow> bool \<Rightarrow> jstring \<Rightarrow> jstring list" where
  "split_pieces cur in_space [] = (if in_space then [cur, []] else [cur])"
| "split_pieces cur in_space (c # cs) =
     (if is_space c = in_space then split_pieces (cur @ [c]) in_space cs
      else cur # split_pieces [c] (is_space c) cs)"

definition split_spaces :: "jstring \<Rightarrow> jstring list" where
  "split_spaces t = split_pieces [] False t"

text \<open>
  \<^verbatim>\<open>toLowerCase\<close>, code unit by code unit. The letters A to Z become a to z. Outside
  ASCII, the Kelvin sign becomes the letter k and the dotted capital I becomes the letter
  i and a combining dot; every other code unit outside ASCII stays as it is here. Its
  lower case in JavaScript may be another text outside ASCII, which makes no
  difference to whether a word of ASCII letters occurs.
\<close>

definition lower_unit :: "nat \<Rightarrow> jstring" where
  "lower_unit c =
     (if 0x41 \<le> c \<and> c \<le> 0x5A then [c + 0x20]
      else if c = 0x212A then [0x6B]
      else if c = 0x130 then [0x69, 0x307]
      else [c])"

definition toLowerCase :: "jstring \<Rightarrow> jstring" where
  "toLowerCase t = concat (map lower_unit t)"

text \<open>The character class \<^verbatim>\<open>[.,!?;:]\<close>.\<close>

definition is_punctuation :: "nat \<Rightarrow> bool" where
  "is_punctuation c = (c \<in> set (ascii ''.,!?;:''))"

text \<open>\<^verbatim>\<open>hay.includes(needle)\<close>.\<close>

fun starts_with :: "jstring \<Rightarrow> jstring \<Rightarrow> bool" where
  "starts_with hay [] = True"
| "starts_with [] (n # ns) = False"
| "starts_with (h # hs) (n # ns) = (h = n \<and> starts_with hs ns)"

fun js_includes :: "jstring \<Rightarrow> jstring \<Rightarrow> bool" where
  "js_includes [] needle = (needle = [])"
| "js_includes (h # hs) needle = (starts_with (h # hs) needle \<or> js_includes hs needle)"

text \<open>
  \<^verbatim>\<open>highlightRiskyWords\<close> (lines 510 to 529). A part is the object
  \<^verbatim>\<open>{text, bold}\<close> of the program.
\<close>

record part =
  part_text :: jstring
  part_bold :: bool

definition isRisky :: "jstring \<Rightarrow> bool" where
  "isRisky w =
     (let lowerWord = filter (\<lambda>c. \<not> is_punctuation c) (toLowerCase w)
      in list_ex (\<lambda>risky. js_includes lowerWord (toLowerCase risky)) riskyWords)"

definition highlightRiskyWords :: "jstring \<Rightarrow> part list" where
  "highlightRiskyWords t = map (\<lambda>w. \<lparr> part_text = w, part_bold = isRisky w \<rparr>) (split_spaces t)"

subsection \<open>The document\<close>

text \<open>
  The result as \<^verbatim>\<open>interface AnalysisResult\<close> (lines 6 to 24) types it; the time stamp
  is not printed and is left out.
\<close>

record analysis_result =
  authenticity_score :: jsnum
  risk_level :: jstring
  reasons :: "jstring list"
  signals :: "jstring list"
  verdict :: jstring
  filename :: "jstring option"
  filenames :: "jstring list option"
  claim :: "jstring option"
  category_scores :: "(string \<times> jsnum) list option"

text \<open>
  What jsPDF and the runtime contribute: the size of the page, how a text is cut into
  lines of a given width and how wide a text is (both depend on the font size and on
  the bold style of the moment), the text of a number, and the text of the current
  date.
\<close>

record jspdf =
  pageWidth :: rat
  pageHeight :: rat
  splitTextToSize :: "rat \<Rightarrow> bool \<Rightarrow> jstring \<Rightarrow> rat \<Rightarrow> jstring list"
  getTextWidth :: "rat \<Rightarrow> bool \<Rightarrow> jstring \<Rightarrow> rat"
  numberToString :: "jsnum \<Rightarrow> jstring"
  localeString :: jstring

text \<open>
  One call of \<^verbatim>\<open>pdf.text\<close>: the lines written, the position, the font of the moment, and
  whether the call asked for \<^verbatim>\<open>align: 'center'\<close>. Colours are left out: no position
  depends on them.
\<close>

record draw =
  content :: "jstring list"
  at_x :: rat
  at_y :: rat
  with_size :: rat
  with_bold :: bool
  centered :: bool

text \<open>
  The state of \<^verbatim>\<open>exportToPDF\<close>: the pages of the document with what was written on
  each, the number of the current page (from 1), the current font, and the local
  variable \<^verbatim>\<open>yPos\<close>.
\<close>

record pdf =
  pages :: "draw list list"
  page :: nat
  fontSize :: rat
  fontBold :: bool
  yPos :: rat

definition margin :: rat where
  "margin = 20"

definition footerHeight :: rat where
  "footerHeight = 15"

definition maxContentWidth :: "jspdf \<Rightarrow> rat" where
  "maxContentWidth env = pageWidth env - 2 * margin"

text \<open>\<^verbatim>\<open>new jsPDF()\<close> with \<^verbatim>\<open>yPos = margin\<close>: one empty page, the default font of size 16.\<close>

definition new_pdf :: pdf where
  "new_pdf = \<lparr> pages = [[]], page = 1, fontSize = 16, fontBold = False, yPos = margin \<rparr>"

definition setFontSize :: "rat \<Rightarrow> pdf \<Rightarrow> pdf" where
  "setFontSize n st = st\<lparr> fontSize := n \<rparr>"

definition setFont :: "bool \<Rightarrow> pdf \<Rightarrow> pdf" where
  "setFont b st = st\<lparr> fontBold := b \<rparr>"

definition addPage :: "pdf \<Rightarrow> pdf" where
  "addPage st = st\<lparr> pages := pages st @ [[]], page := length (pages st) + 1 \<rparr>"

definition setPage :: "nat \<Rightarrow> pdf \<Rightarrow> pdf" where
  "setPage i st = st\<lparr> page := i \<rparr>"

text \<open>\<^verbatim>\<open>pdf.text(lines, x, y)\<close> and \<^verbatim>\<open>pdf.text(lines, x, y, { align: 'center' })\<close>.\<close>

definition pdf_text :: "jstring list \<Rightarrow> rat \<Rightarrow> rat \<Rightarrow> bool \<Rightarrow> pdf \<Rightarrow> pdf" where
  "pdf_text ls x y center st =
     st\<lparr> pages := (pages st)
            [page st - 1 :=
               pages st ! (page st - 1)
                 @ [\<lparr> content = ls, at_x = x, at_y = y, with_size = fontSize st,
                      with_bold = fontBold st, centered = center \<rparr>]] \<rparr>"

text \<open>\<^verbatim>\<open>pdf.text(lines, x, yPos)\<close>, and \<^verbatim>\<open>yPos += d\<close>.\<close>

definition write_lines :: "jstring list \<Rightarrow> rat \<Rightarrow> pdf \<Rightarrow> pdf" where
  "write_lines ls x st = pdf_text ls x (yPos st) False st"

definition advance :: "rat \<Rightarrow> pdf \<Rightarrow> pdf" where
  "advance d st = st\<lparr> yPos := yPos st + d \<rparr>"

text \<open>\<^verbatim>\<open>pdf.splitTextToSize(t, w)\<close> in the font of the moment.\<close>

definition split_text :: "jspdf \<Rightarrow> pdf \<Rightarrow> jstring \<Rightarrow> rat \<Rightarrow> jstring list" where
  "split_text env st t w = splitTextToSize env (fontSize st) (fontBold st) t w"

text \<open>\<^verbatim>\<open>checkPageBreak\<close> (lines 414 to 421): what it returns, and the state it leaves.\<close>

definition checkPageBreak :: "jspdf \<Rightarrow> rat \<Rightarrow> pdf \<Rightarrow> bool \<times> pdf" where
  "checkPageBreak env requiredSpace st =
     (if yPos st + requiredSpace > pageHeight env - footerHeight
      then (True, (addPage st)\<lparr> yPos := margin \<rparr>)
      else (False, st))"

text \<open>
  \<^verbatim>\<open>renderTextWithBold\<close> (lines 532 to 567). One part: the font is set, the width
  measured, the line broken where the part would pass the right edge, and the part
  written. The state of the loop is \<^verbatim>\<open>currentX\<close>, \<^verbatim>\<open>currentY\<close> and the document.
\<close>

definition render_part ::
  "jspdf \<Rightarrow> rat \<Rightarrow> rat \<Rightarrow> rat \<Rightarrow> part \<Rightarrow> rat \<times> rat \<times> pdf \<Rightarrow> rat \<times> rat \<times> pdf" where
  "render_part env currentFontSize x maxWidth p s =
     (case s of (currentX, currentY, st) \<Rightarrow>
        let isSpace = (part_text p \<noteq> [] \<and> list_all is_space (part_text p));
            st1 = setFontSize currentFontSize (setFont (part_bold p \<and> \<not> isSpace) st);
            wordWidth = getTextWidth env (fontSize st1) (fontBold st1) (part_text p);
            wrap = (currentX + wordWidth > x + maxWidth - 2 \<and> \<not> isSpace \<and> currentX > x);
            cx = (if wrap then x else currentX);
            cy = (if wrap then currentY + 7 else currentY)
        in (cx + wordWidth, cy, pdf_text [part_text p] cx cy False st1))"

definition renderTextWithBold :: "jspdf \<Rightarrow> jstring \<Rightarrow> rat \<Rightarrow> rat \<Rightarrow> rat \<Rightarrow> pdf \<Rightarrow> rat \<times> pdf" where
  "renderTextWithBold env t x y maxWidth st =
     (case fold (render_part env (fontSize st) x maxWidth) (highlightRiskyWords t) (x, y, st) of
        (currentX, currentY, st') \<Rightarrow>
          (currentY + 7, setFontSize (fontSize st) (setFont False st')))"

text \<open>
  The lines of one reason or signal (lines 594 to 599 and 627 to 632): each line starts
  where the one before ended, and \<^verbatim>\<open>yPos\<close> ends 2 below the last.
\<close>

definition render_lines :: "jspdf \<Rightarrow> jstring list \<Rightarrow> pdf \<Rightarrow> pdf" where
  "render_lines env ls st =
     (case fold (\<lambda>line s. case s of (startY, st1) \<Rightarrow>
                   renderTextWithBold env line (margin + 5) startY (maxContentWidth env - 5) st1)
               ls (yPos st, st) of
        (startY, st') \<Rightarrow> st'\<lparr> yPos := startY + 2 \<rparr>)"

text \<open>The note written at the top of a page that a reason or a signal opened.\<close>

definition continued :: "pdf \<Rightarrow> pdf" where
  "continued st = setFontSize 11 (advance 5 (write_lines [ascii ''(continued)''] margin (setFontSize 9 st)))"

text \<open>
  One reason or signal, from its text (number or bullet in front) and the space its
  lines ask for beyond 7 a line: 4 for a reason, 0 for a signal.
\<close>

definition render_item :: "jspdf \<Rightarrow> rat \<Rightarrow> jstring \<Rightarrow> pdf \<Rightarrow> pdf" where
  "render_item env extra t st =
     (let ls = split_text env st t (maxContentWidth env - 5);
          requiredSpace = of_nat (length ls) * 7 + extra
      in case checkPageBreak env requiredSpace st of
           (broke, st1) \<Rightarrow> render_lines env ls (if broke then continued st1 else st1))"

fun reasons_loop :: "jspdf \<Rightarrow> nat \<Rightarrow> jstring list \<Rightarrow> pdf \<Rightarrow> pdf" where
  "reasons_loop env index [] st = st"
| "reasons_loop env index (reason # rest) st =
     reasons_loop env (index + 1) rest
       (render_item env 4
          (numberToString env (Fin (of_nat (index + 1))) @ ascii ''. '' @ sanitizeTextForPDF reason) st)"

text \<open>The bullet in front of a signal is the code unit U+2022.\<close>

fun signals_loop :: "jspdf \<Rightarrow> jstring list \<Rightarrow> pdf \<Rightarrow> pdf" where
  "signals_loop env [] st = st"
| "signals_loop env (signal # rest) st =
     signals_loop env rest
       (render_item env 0 ([0x2022, 0x20] @ sanitizeTextForPDF signal) st)"

subsection \<open>The blocks of the report, in the order of the program\<close>

text \<open>Lines 424 to 428: the title.\<close>

definition title_block :: "jspdf \<Rightarrow> pdf \<Rightarrow> pdf" where
  "title_block env st =
     (let st1 = setFontSize 20 st;
          titleLines = split_text env st1 (ascii ''VeriWeave Forensic Analysis Report'') (maxContentWidth env)
      in advance (of_nat (length titleLines) * 8 + 5) (write_lines titleLines margin st1))"

text \<open>Lines 431 to 434: the time stamp.\<close>

definition timestamp_block :: "jspdf \<Rightarrow> pdf \<Rightarrow> pdf" where
  "timestamp_block env st =
     advance 10 (write_lines [ascii ''Generated: '' @ localeString env] margin (setFontSize 10 st))"

text \<open>Lines 441 to 450: the file name shown.\<close>

definition filenameDisplay :: "jspdf \<Rightarrow> analysis_result \<Rightarrow> jstring" where
  "filenameDisplay env r =
     (case (case filenames r of Some fs \<Rightarrow> (if fs \<noteq> [] then Some fs else None) | None \<Rightarrow> None) of
        Some fs \<Rightarrow>
          (if length fs = 1 then hd fs
           else numberToString env (Fin (of_nat (length fs))) @ ascii '' files: '' @ join (ascii '', '') fs)
      | None \<Rightarrow>
          (case filename r of
             Some f \<Rightarrow> (if f \<noteq> [] then f else ascii ''Unknown'')
           | None \<Rightarrow> ascii ''Unknown''))"

text \<open>Lines 437 to 455: the file names, written with no test for the end of the page.\<close>

definition file_block :: "jspdf \<Rightarrow> analysis_result \<Rightarrow> pdf \<Rightarrow> pdf" where
  "file_block env r st =
     (let st1 = setFontSize 12 st;
          plural = (case filenames r of Some fs \<Rightarrow> 1 < length fs | None \<Rightarrow> False);
          filenameText = ascii ''File'' @ (if plural then ascii ''s'' else []) @ ascii '': ''
                           @ sanitizeTextForPDF (filenameDisplay env r);
          filenameLines = split_text env st1 filenameText (maxContentWidth env)
      in advance (of_nat (length filenameLines) * 6 + 5) (write_lines filenameLines margin st1))"

text \<open>Lines 457 to 460: the claim, written with no test for the end of the page.\<close>

definition claim_block :: "jspdf \<Rightarrow> analysis_result \<Rightarrow> pdf \<Rightarrow> pdf" where
  "claim_block env r st =
     (let supplied = (case claim r of Some c \<Rightarrow> (if c \<noteq> [] then c else ascii ''No claim provided'')
                      | None \<Rightarrow> ascii ''No claim provided'');
          claimText = ascii ''Claim: '' @ sanitizeTextForPDF supplied;
          claimLines = split_text env st claimText (maxContentWidth env)
      in advance (of_nat (length claimLines) * 6 + 5) (write_lines claimLines margin st))"

text \<open>Lines 463 to 471: score and risk level.\<close>

definition score_block :: "jspdf \<Rightarrow> analysis_result \<Rightarrow> pdf \<Rightarrow> pdf" where
  "score_block env r st =
     (let st1 = setFontSize 16 (snd (checkPageBreak env 15 st));
          st2 = advance 10
                  (write_lines [ascii ''Authenticity Score: '' @ numberToString env (authenticity_score r)
                                  @ ascii ''%''] margin st1);
          st3 = setFontSize 12 st2
      in advance 10 (write_lines [ascii ''Risk Level: '' @ risk_level r] margin st3))"

text \<open>
  Lines 474 to 480: the verdict. The test for the end of the page asks for 20, whatever
  the number of lines; the block then takes 7 a line and 8.
\<close>

definition verdict_block :: "jspdf \<Rightarrow> analysis_result \<Rightarrow> pdf \<Rightarrow> pdf" where
  "verdict_block env r st =
     (let st1 = setFontSize 12 (snd (checkPageBreak env 20 st));
          verdictText = ascii ''Verdict: '' @ sanitizeTextForPDF (verdict r);
          verdictLines = split_text env st1 verdictText (maxContentWidth env)
      in advance (of_nat (length verdictLines) * 7 + 8) (write_lines verdictLines margin st1))"

definition categories :: "(string \<times> jstring) list" where
  "categories =
     [(''multimodal_match'', ascii ''Multimodal Match''),
      (''document_forensics'', ascii ''Document Forensics''),
      (''visual_artifacts'', ascii ''Visual Artifacts''),
      (''logical_consistency'', ascii ''Logical Consistency''),
      (''synthetic_signs'', ascii ''Synthetic Signs''),
      (''shadow_perspective'', ascii ''Shadow & Perspective'')]"

text \<open>\<^verbatim>\<open>result.category_scores?.[key] || 0\<close>.\<close>

definition category_score :: "(string \<times> jsnum) list \<Rightarrow> string \<Rightarrow> jsnum" where
  "category_score cs key =
     (case map_of cs key of
        None \<Rightarrow> Fin 0
      | Some n \<Rightarrow> (if n = NaN \<or> n = Fin 0 then Fin 0 else n))"

text \<open>Lines 483 to 507: the category scores, when the result has them.\<close>

definition category_line :: "jspdf \<Rightarrow> (string \<times> jsnum) list \<Rightarrow> string \<times> jstring \<Rightarrow> pdf \<Rightarrow> pdf" where
  "category_line env cs cat st =
     advance 6
       (write_lines [snd cat @ ascii '': '' @ numberToString env (category_score cs (fst cat)) @ ascii ''%'']
          (margin + 5) st)"

definition category_block :: "jspdf \<Rightarrow> analysis_result \<Rightarrow> pdf \<Rightarrow> pdf" where
  "category_block env r st =
     (case category_scores r of
        None \<Rightarrow> st
      | Some cs \<Rightarrow>
          (let st1 = setFontSize 14 (snd (checkPageBreak env 50 st));
               st2 = setFontSize 10 (advance 8 (write_lines [ascii ''Confidence Breakdown:''] margin st1))
           in advance 5 (fold (category_line env cs) categories st2)))"

text \<open>Lines 570 to 601: the reasons.\<close>

definition reasons_block :: "jspdf \<Rightarrow> analysis_result \<Rightarrow> pdf \<Rightarrow> pdf" where
  "reasons_block env r st =
     (let st1 = setFontSize 16 (snd (checkPageBreak env 20 st));
          st2 = setFontSize 11 (advance 10 (write_lines [ascii ''Analysis Reasons:''] margin st1))
      in advance 5 (reasons_loop env 0 (reasons r) st2))"

text \<open>Lines 604 to 633: the signals.\<close>

definition signals_block :: "jspdf \<Rightarrow> analysis_result \<Rightarrow> pdf \<Rightarrow> pdf" where
  "signals_block env r st =
     (let st1 = setFontSize 16 (snd (checkPageBreak env 20 st));
          st2 = setFontSize 11 (advance 10 (write_lines [ascii ''Technical Signals:''] margin st1))
      in signals_loop env (signals r) st2)"

text \<open>The body of the report: every block, from the title to the signals.\<close>

definition body :: "jspdf \<Rightarrow> analysis_result \<Rightarrow> pdf" where
  "body env r =
     signals_block env r (reasons_block env r (category_block env r (verdict_block env r
       (score_block env r (claim_block env r (file_block env r
          (timestamp_block env (title_block env new_pdf))))))))"

subsection \<open>The footer\<close>

definition footerText :: jstring where
  "footerText = ascii ''VeriWeave - AI-Powered Forensic Analysis | Powered by Gemini 3''"

text \<open>Lines 638 to 644: the body of the loop, for page \<open>i\<close>.\<close>

definition stamp_footer :: "jspdf \<Rightarrow> nat \<Rightarrow> pdf \<Rightarrow> pdf" where
  "stamp_footer env i st =
     pdf_text [footerText] (pageWidth env / 2) (pageHeight env - 8) True (setFontSize 8 (setPage i st))"

text \<open>Lines 636 to 645: \<^verbatim>\<open>for (let i = 1; i <= totalPages; i++)\<close>.\<close>

definition stamp_footers :: "jspdf \<Rightarrow> pdf \<Rightarrow> pdf" where
  "stamp_footers env st = fold (stamp_footer env) [1..<length (pages st) + 1] st"

text \<open>
  \<^verbatim>\<open>exportToPDF\<close>: nothing when there is no result (line 378), and otherwise the
  document as it stands when \<^verbatim>\<open>pdf.save\<close> is called. The name of the saved file is not
  modelled.
\<close>

definition exportToPDF :: "jspdf \<Rightarrow> analysis_result option \<Rightarrow> pdf option" where
  "exportToPDF env result =
     (case result of None \<Rightarrow> None | Some r \<Rightarrow> Some (stamp_footers env (body env r)))"

subsection \<open>A page and a font for concrete evaluations\<close>

text \<open>
  The theorems on the report hold for every page size and every font. Where a concrete
  result is laid out, the page is A4 in millimetres, a text is cut into lines at its
  line feeds and nowhere else (as jsPDF cuts a text none of whose lines is wider than
  the page), and every code unit is 2 wide.
\<close>

fun lines_of :: "jstring \<Rightarrow> jstring \<Rightarrow> jstring list" where
  "lines_of cur [] = [cur]"
| "lines_of cur (c # cs) = (if c = 0x0A then cur # lines_of [] cs else lines_of (cur @ [c]) cs)"

definition a4_fixed_pitch :: jspdf where
  "a4_fixed_pitch =
     \<lparr> pageWidth = 210, pageHeight = 297,
       splitTextToSize = (\<lambda>size bold t w. lines_of [] t),
       getTextWidth = (\<lambda>size bold t. of_nat (length t) * 2),
       numberToString = (\<lambda>n. ascii (num_to_string decimal_runtime n)),
       localeString = ascii ''11/3/2026, 10:46:00 AM'' \<rparr>"

text \<open>An overall limit for what the body may reach on a page.\<close>

definition body_limit :: "jspdf \<Rightarrow> rat" where
  "body_limit env = pageHeight env - footerHeight"

text \<open>
  Two properties of the state while the body is laid out: nothing written so far is
  centred, and the current page is one of the pages.
\<close>

definition left_aligned :: "pdf \<Rightarrow> bool" where
  "left_aligned st = list_all (list_all (\<lambda>d. \<not> centered d)) (pages st)"

definition page_valid :: "pdf \<Rightarrow> bool" where
  "page_valid st = (1 \<le> page st \<and> page st \<le> length (pages st))"

definition laying_out :: "pdf \<Rightarrow> bool" where
  "laying_out st = (left_aligned st \<and> page_valid st)"

text \<open>
  The footer stamp: the footer text, centred on the middle of the page, 8 above its
  lower edge, in size 8.
\<close>

definition footer_stamp :: "jspdf \<Rightarrow> bool \<Rightarrow> draw" where
  "footer_stamp env b =
     \<lparr> content = [footerText], at_x = pageWidth env / 2, at_y = pageHeight env - 8,
       with_size = 8, with_bold = b, centered = True \<rparr>"

text \<open>
  A result whose verdict has 60 short lines; it has no reasons and no signals, as the
  result that \<^verbatim>\<open>handleMultiCaseUpload\<close> builds for a failed file has no signals
  (line 232).
\<close>

definition long_verdict :: jstring where
  "long_verdict = concat (replicate 59 (ascii ''x'' @ [0x0A])) @ ascii ''x''"

definition long_verdict_result :: analysis_result where
  "long_verdict_result =
     \<lparr> authenticity_score = Fin 35, risk_level = ascii ''High'',
       reasons = [], signals = [],
       verdict = long_verdict,
       filename = Some (ascii ''invoice.pdf''), filenames = None,
       claim = Some (ascii ''Paid in full''), category_scores = None \<rparr>"

section \<open>Properties of double arithmetic\<close>

lemma bit_length_bounds:
  "0 < n \<Longrightarrow> 1 \<le> bit_length n \<and> 2 ^ nat (bit_length n - 1) \<le> n \<and> n < 2 ^ nat (bit_length n)"
proof (induction n rule: bit_length.induct)
  case (1 n)
  show ?case
  proof (cases "n = 1")
    case True
    then show ?thesis
      by (simp add: bit_length.simps [of 1] bit_length.simps [of 0])
  next
    case False
    with 1 have m: "0 < n div 2" by simp
    let ?b = "bit_length (n div 2)"
    from 1 m have ih: "1 \<le> ?b" "2 ^ nat (?b - 1) \<le> n div 2" "n div 2 < 2 ^ nat ?b"
      by simp_all
    have b: "bit_length n = ?b + 1"
      using 1 by (simp add: bit_length.simps [of n])
    have "nat ?b = Suc (nat (?b - 1))"
      using ih(1) by simp
    then have p: "(2::int) ^ nat ?b = 2 * 2 ^ nat (?b - 1)"
      by simp
    have "nat (?b + 1) = Suc (nat ?b)"
      using ih(1) by simp
    then have p2: "(2::int) ^ nat (?b + 1) = 2 * 2 ^ nat ?b"
      by simp
    have "2 ^ nat ?b \<le> n"
      using ih(2) p by linarith
    moreover have "n < 2 ^ nat (?b + 1)"
      using ih(3) p2 by linarith
    ultimately show ?thesis
      using b ih(1) by simp
  qed
qed

lemma bit_length_rat:
  assumes "0 < n"
  shows "(2::rat) powi (bit_length n - 1) \<le> of_int n" and "of_int n < (2::rat) powi bit_length n"
proof -
  from bit_length_bounds [OF assms]
  have b: "1 \<le> bit_length n" "2 ^ nat (bit_length n - 1) \<le> n" "n < 2 ^ nat (bit_length n)"
    by simp_all
  have "(2::rat) powi (bit_length n - 1) = of_int (2 ^ nat (bit_length n - 1))"
    using b(1) by (simp add: power_int_nonneg_exp)
  also have "\<dots> \<le> of_int n"
    using b(2) by (simp only: of_int_le_iff)
  finally show "(2::rat) powi (bit_length n - 1) \<le> of_int n" .
  have "(of_int n :: rat) < of_int (2 ^ nat (bit_length n))"
    using b(3) by (simp only: of_int_less_iff)
  also have "\<dots> = 2 powi bit_length n"
    using b(1) by (simp add: power_int_nonneg_exp)
  finally show "of_int n < (2::rat) powi bit_length n" .
qed

lemma binary_exponent_bounds:
  assumes "0 < a"
  shows "2 powi binary_exponent a \<le> a" and "a < 2 powi (binary_exponent a + 1)"
proof -
  obtain n d where q: "quotient_of a = (n, d)"
    by (cases "quotient_of a")
  then have d: "0 < d" and a: "a = of_int n / of_int d"
    by (simp_all add: quotient_of_denom_pos quotient_of_div)
  from assms a d have n: "0 < n"
    by (simp add: zero_less_divide_iff)
  let ?k = "bit_length n - bit_length d"
  have lo: "(2::rat) powi (?k - 1) \<le> a"
  proof -
    have "(2::rat) powi (?k - 1) * of_int d \<le> 2 powi (?k - 1) * 2 powi bit_length d"
      using bit_length_rat(2) [OF d] by (intro mult_left_mono) auto
    also have "\<dots> = 2 powi (bit_length n - 1)"
      by (simp add: power_int_add [symmetric])
    also have "\<dots> \<le> of_int n"
      by (rule bit_length_rat(1) [OF n])
    finally show ?thesis
      using d by (simp add: a pos_le_divide_eq)
  qed
  have hi: "a < (2::rat) powi (?k + 1)"
  proof -
    have "of_int n < (2::rat) powi bit_length n"
      by (rule bit_length_rat(2) [OF n])
    also have "\<dots> = 2 powi (?k + 1) * 2 powi (bit_length d - 1)"
      by (simp add: power_int_add [symmetric])
    also have "\<dots> \<le> 2 powi (?k + 1) * of_int d"
      using bit_length_rat(1) [OF d] by (intro mult_left_mono) auto
    finally show ?thesis
      using d by (simp add: a pos_divide_less_eq)
  qed
  have e: "binary_exponent a = (if 2 powi ?k \<le> a then ?k else ?k - 1)"
    by (simp add: binary_exponent_def q Let_def)
  show "2 powi binary_exponent a \<le> a"
    using lo by (simp add: e)
  show "a < 2 powi (binary_exponent a + 1)"
    using hi by (auto simp: e not_le)
qed

lemma pow2_less_iff: "(2::rat) powi m < 2 powi n \<longleftrightarrow> m < n"
proof
  assume l: "(2::rat) powi m < 2 powi n"
  show "m < n"
  proof (rule ccontr)
    assume "\<not> m < n"
    then have "(2::rat) powi n \<le> 2 powi m"
      by (intro power_int_increasing) auto
    with l show False by simp
  qed
next
  assume "m < n"
  then show "(2::rat) powi m < 2 powi n"
    by (intro power_int_strict_increasing) auto
qed

lemma pow2_le_iff: "(2::rat) powi m \<le> 2 powi n \<longleftrightarrow> m \<le> n"
  using pow2_less_iff [of n m] by (auto simp: not_less [symmetric])

lemma binary_exponent_unique:
  assumes "2 powi e \<le> a" and "a < 2 powi (e + 1)"
  shows "binary_exponent a = e"
proof -
  have pos: "0 < a"
    using assms(1) by (rule less_le_trans [rotated]) simp
  let ?b = "binary_exponent a"
  from binary_exponent_bounds [OF pos] have b: "2 powi ?b \<le> a" "a < 2 powi (?b + 1)"
    by simp_all
  have "(2::rat) powi e < 2 powi (?b + 1)"
    using assms(1) b(2) by simp
  then have "e < ?b + 1"
    by (simp only: pow2_less_iff)
  moreover have "(2::rat) powi ?b < 2 powi (e + 1)"
    using assms(2) b(1) by simp
  then have "?b < e + 1"
    by (simp only: pow2_less_iff)
  ultimately show ?thesis by simp
qed

lemma round_half_even_of_int: "round_half_even (of_int i) = i"
  by (simp add: round_half_even_def)

lemma round_half_even_near: "\<bar>of_int (round_half_even x) - x\<bar> \<le> 1 / 2"
proof -
  have f: "of_int \<lfloor>x\<rfloor> \<le> x" "x < of_int \<lfloor>x\<rfloor> + 1"
    by linarith+
  show ?thesis
    unfolding round_half_even_def Let_def using f by (auto split: if_splits)
qed


lemma overflow_test:
  assumes "0 < m"
  shows "1024 < p + bit_length m \<longleftrightarrow> 2 powi 1024 \<le> rat_of_int m * 2 powi p"
proof
  assume "1024 < p + bit_length m"
  then have "(2::rat) powi 1024 \<le> 2 powi (bit_length m - 1 + p)"
    by (simp only: pow2_le_iff)
  also have "\<dots> = 2 powi (bit_length m - 1) * 2 powi p"
    by (rule power_int_add) simp
  also have "\<dots> \<le> rat_of_int m * 2 powi p"
    using bit_length_rat(1) [OF assms] by (intro mult_right_mono) auto
  finally show "2 powi 1024 \<le> rat_of_int m * 2 powi p" .
next
  assume "2 powi 1024 \<le> rat_of_int m * 2 powi p"
  also have "rat_of_int m * 2 powi p < 2 powi bit_length m * 2 powi p"
    using bit_length_rat(2) [OF assms] by (intro mult_strict_right_mono) auto
  also have "\<dots> = 2 powi (bit_length m + p)"
    by (rule power_int_add [symmetric]) simp
  finally have "1024 < bit_length m + p"
    by (simp only: pow2_less_iff)
  then show "1024 < p + bit_length m" by simp
qed

lemma round_half_even_ge:
  assumes "rat_of_int j \<le> x"
  shows "j \<le> round_half_even x"
proof -
  have "x - rat_of_int (round_half_even x) \<le> 1 / 2"
    using round_half_even_near [of x] by (simp only: abs_le_iff) simp
  with assms have "rat_of_int j - 1 / 2 \<le> rat_of_int (round_half_even x)"
    by linarith
  then have "rat_of_int j < rat_of_int (round_half_even x) + 1"
    by simp
  then have "rat_of_int j < rat_of_int (round_half_even x + 1)"
    by simp
  then have "j < round_half_even x + 1"
    by (simp only: of_int_less_iff)
  then show ?thesis by simp
qed

lemma round_to_double_value:
  "round_to_double q =
     (if q = 0 then Fin 0
      else
        (let a = \<bar>q\<bar>;
             p = max (binary_exponent a - 52) (- 1074);
             v = of_int (round_half_even (a / 2 powi p)) * 2 powi p
         in if 2 powi 1024 \<le> v then (if q < 0 then NegInf else PosInf)
            else Fin (if q < 0 then - v else v)))"
proof (cases "q = 0")
  case True
  then show ?thesis by (simp add: round_to_double_def)
next
  case False
  define a where "a = \<bar>q\<bar>"
  define p where "p = max (binary_exponent a - 52) (- 1074)"
  define m where "m = round_half_even (a / 2 powi p)"
  have apos: "0 < a" using False by (simp add: a_def)
  have m0: "0 \<le> m"
    unfolding m_def using apos by (intro round_half_even_ge) simp
  have t: "1024 < p + bit_length m \<longleftrightarrow> 2 powi 1024 \<le> rat_of_int m * 2 powi p"
  proof (cases "m = 0")
    case True
    have "p = - 1074"
    proof (rule ccontr)
      assume "p \<noteq> - 1074"
      then have pe: "p = binary_exponent a - 52"
        by (simp add: p_def max_def split: if_splits)
      have "(2::rat) ^ 52 = 2 powi binary_exponent a * 2 powi (- p)"
        unfolding pe by (simp add: power_int_add [symmetric])
      also have "\<dots> \<le> a * 2 powi (- p)"
        using binary_exponent_bounds(1) [OF apos] by (intro mult_right_mono) auto
      also have "\<dots> = a / 2 powi p"
        by (simp add: power_int_minus field_simps)
      finally have "rat_of_int (2 ^ 52) \<le> a / 2 powi p"
        by simp
      then have "2 ^ 52 \<le> m"
        unfolding m_def by (rule round_half_even_ge)
      with True show False by simp
    qed
    with True show ?thesis
      by (simp add: bit_length.simps [of 0] not_le)
  next
    case False
    with m0 have "0 < m" by simp
    then show ?thesis by (rule overflow_test)
  qed
  show ?thesis
    unfolding round_to_double_def Let_def a_def [symmetric] p_def [symmetric] m_def [symmetric]
    by (simp only: t)
qed

lemma round_to_double_exact:
  assumes "\<bar>i\<bar> < 2 ^ 53" and "- 1074 \<le> k" and "k \<le> 971"
  shows "round_to_double (of_int i * 2 powi k) = Fin (of_int i * 2 powi k)"
proof (cases "i = 0")
  case True
  then show ?thesis by (simp add: round_to_double_value)
next
  case False
  let ?q = "rat_of_int i * 2 powi k"
  let ?a = "rat_of_int \<bar>i\<bar> * 2 powi k"
  have a: "\<bar>?q\<bar> = ?a"
    by (simp add: abs_mult)
  have apos: "0 < ?a"
    using False by simp
  let ?e = "binary_exponent ?a"
  have "rat_of_int \<bar>i\<bar> < 2 ^ 53"
    using assms(1) by (metis of_int_less_iff of_int_numeral of_int_power)
  then have lt: "?a < 2 powi (53 + k)"
    by (simp add: power_int_add)
  have "2 powi ?e \<le> ?a"
    by (rule binary_exponent_bounds(1) [OF apos])
  with lt have "(2::rat) powi ?e < 2 powi (53 + k)"
    by simp
  then have e: "?e < 53 + k"
    by (simp only: pow2_less_iff)
  define p where "p = max (?e - 52) (- 1074)"
  have pk: "p \<le> k"
    using e assms(2) by (simp add: p_def)
  have "?a / 2 powi p = rat_of_int \<bar>i\<bar> * 2 powi (k - p)"
    by (simp add: power_int_diff)
  also have "\<dots> = rat_of_int (\<bar>i\<bar> * 2 ^ nat (k - p))"
    using pk by (simp add: power_int_nonneg_exp)
  finally have m: "round_half_even (?a / 2 powi p) = \<bar>i\<bar> * 2 ^ nat (k - p)"
    by (simp only: round_half_even_of_int)
  have "rat_of_int (\<bar>i\<bar> * 2 ^ nat (k - p)) * 2 powi p = rat_of_int \<bar>i\<bar> * (2 powi (k - p) * 2 powi p)"
    using pk by (simp add: power_int_nonneg_exp)
  also have "\<dots> = ?a"
    by (simp add: power_int_add [symmetric])
  finally have v: "rat_of_int (round_half_even (?a / 2 powi p)) * 2 powi p = ?a"
    by (simp only: m)
  have "(2::rat) powi (53 + k) \<le> 2 powi 1024"
    using assms(3) by (simp only: pow2_le_iff)
  with lt have small: "\<not> 2 powi 1024 \<le> ?a"
    by simp
  have q0: "?q \<noteq> 0"
    using False by simp
  have sg: "(if ?q < 0 then - ?a else ?a) = ?q"
    by (simp add: abs_if mult_less_0_iff zero_less_mult_iff not_less)
  show ?thesis
    unfolding round_to_double_value Let_def a p_def [symmetric]
    using q0 small by (simp only: v sg if_False)
qed

lemma round_to_double_of_int:
  assumes "\<bar>i\<bar> < 2 ^ 53"
  shows "round_to_double (of_int i) = Fin (of_int i)"
  using round_to_double_exact [OF assms, of 0] by simp

lemma round_to_double_error:
  assumes "q \<noteq> 0" and "\<bar>q\<bar> < 2 powi 1023"
  obtains v where "round_to_double q = Fin v"
    and "\<bar>v - q\<bar> \<le> 2 powi (max (binary_exponent \<bar>q\<bar> - 52) (- 1074) - 1)"
proof -
  let ?a = "\<bar>q\<bar>"
  have apos: "0 < ?a" using assms(1) by simp
  let ?e = "binary_exponent ?a"
  define p where "p = max (?e - 52) (- 1074)"
  define m where "m = round_half_even (?a / 2 powi p)"
  have "2 powi ?e \<le> ?a"
    by (rule binary_exponent_bounds(1) [OF apos])
  with assms(2) have "(2::rat) powi ?e < 2 powi 1023"
    by simp
  then have e: "?e < 1023"
    by (simp only: pow2_less_iff)
  then have p: "p \<le> 970"
    by (simp add: p_def)
  have near: "\<bar>rat_of_int m - ?a / 2 powi p\<bar> \<le> 1 / 2"
    unfolding m_def by (rule round_half_even_near)
  have "rat_of_int m * 2 powi p - ?a = (rat_of_int m - ?a / 2 powi p) * 2 powi p"
    by (simp add: left_diff_distrib)
  then have "\<bar>rat_of_int m * 2 powi p - ?a\<bar> = \<bar>rat_of_int m - ?a / 2 powi p\<bar> * 2 powi p"
    by (simp only: abs_mult) simp
  also have "\<dots> \<le> (1 / 2) * 2 powi p"
    using near by (intro mult_right_mono) auto
  also have "\<dots> = 2 powi (p - 1)"
    by (simp add: power_int_diff)
  finally have err: "\<bar>rat_of_int m * 2 powi p - ?a\<bar> \<le> 2 powi (p - 1)" .
  have "(2::rat) powi (p - 1) \<le> 2 powi 1023"
    using p by (simp only: pow2_le_iff)
  with err assms(2) have "rat_of_int m * 2 powi p < 2 powi 1023 + 2 powi 1023"
    by linarith
  also have "\<dots> = (2::rat) powi 1024"
    by simp
  finally have small: "\<not> 2 powi 1024 \<le> rat_of_int m * 2 powi p"
    by simp
  let ?v = "if q < 0 then - (rat_of_int m * 2 powi p) else rat_of_int m * 2 powi p"
  have r: "round_to_double q = Fin ?v"
    unfolding round_to_double_value Let_def p_def [symmetric] m_def [symmetric]
    using assms(1) small by simp
  have "\<bar>?v - q\<bar> = \<bar>rat_of_int m * 2 powi p - ?a\<bar>"
    by (auto simp: abs_if)
  with err have "\<bar>?v - q\<bar> \<le> 2 powi (p - 1)"
    by simp
  with r show ?thesis
    using that unfolding p_def by blast
qed


lemma half_integer_gap:
  fixes s j :: int and n :: nat
  assumes "0 < n" and "rat_of_int s / of_nat n < of_int j + 1 / 2"
  shows "rat_of_int s / of_nat n + 1 / (2 * of_nat n) \<le> of_int j + 1 / 2"
proof -
  have n: "(0::rat) < of_nat n" using assms(1) by simp
  from assms(2) have "rat_of_int s < (of_int j + 1 / 2) * of_nat n"
    using n by (simp add: pos_divide_less_eq)
  then have "rat_of_int (2 * s) < rat_of_int ((2 * j + 1) * int n)"
    by (simp add: algebra_simps)
  then have "2 * s < (2 * j + 1) * int n"
    by (simp only: of_int_less_iff)
  then have "2 * s + 1 \<le> (2 * j + 1) * int n"
    by simp
  then have "rat_of_int (2 * s + 1) \<le> rat_of_int ((2 * j + 1) * int n)"
    by (simp only: of_int_le_iff)
  then have "2 * rat_of_int s + 1 \<le> (2 * of_int j + 1) * of_nat n"
    by simp
  then show ?thesis
    using n by (simp add: field_simps)
qed

lemma half_integer_gap_below:
  fixes s j :: int and n :: nat
  assumes "0 < n" and "of_int j - 1 / 2 < rat_of_int s / of_nat n"
  shows "of_int j - 1 / 2 \<le> rat_of_int s / of_nat n - 1 / (2 * of_nat n)"
proof -
  have "rat_of_int (- s) / of_nat n < of_int (- j) + 1 / 2"
    using assms(2) by simp
  from half_integer_gap [OF assms(1) this] show ?thesis
    by simp
qed

lemma round_quotient:
  fixes s :: int and n :: nat
  assumes "\<bar>s\<bar> < 2 ^ 52" and "0 < n" and "n < 2 ^ 32"
  shows "math_round (round_to_double (of_int s / of_nat n))
         = Fin (of_int \<lfloor>rat_of_int s / of_nat n + 1 / 2\<rfloor>)"
proof (cases "s = 0")
  case True
  then show ?thesis
    by (simp add: round_to_double_value)
next
  case False
  define q where "q = rat_of_int s / of_nat n"
  have n: "(1::rat) \<le> of_nat n" using assms(2) by simp
  have q0: "q \<noteq> 0"
    using False assms(2) by (simp add: q_def)
  have s52: "rat_of_int \<bar>s\<bar> < 2 ^ 52"
    using assms(1) by (metis of_int_less_iff of_int_numeral of_int_power)
  have aq: "\<bar>q\<bar> = rat_of_int \<bar>s\<bar> / of_nat n"
    by (simp add: q_def)
  have "rat_of_int \<bar>s\<bar> / of_nat n \<le> rat_of_int \<bar>s\<bar> / 1"
    using n by (intro divide_left_mono) auto
  then have qs: "\<bar>q\<bar> < 2 ^ 52"
    using s52 by (simp add: aq)
  have "(2::rat) ^ 52 \<le> 2 powi 1023"
    by simp
  with qs have q1023: "\<bar>q\<bar> < 2 powi 1023"
    by simp
  let ?e = "binary_exponent \<bar>q\<bar>"
  let ?p = "max (?e - 52) (- 1074)"
  from round_to_double_error [OF q0 q1023]
  obtain v where v: "round_to_double q = Fin v" and err: "\<bar>v - q\<bar> \<le> 2 powi (?p - 1)"
    by blast
  have n33: "2 * rat_of_nat n < 2 ^ 33"
  proof -
    have "rat_of_nat n < of_nat (2 ^ 32)"
      using assms(3) by (simp only: of_nat_less_iff)
    then show ?thesis by simp
  qed
  have bound: "(2::rat) powi (?p - 1) < 1 / (2 * of_nat n)"
  proof (cases "- 1074 \<le> ?e - 52")
    case True
    then have "?p - 1 = ?e + (- 53)" by simp
    moreover have "(2::rat) powi (?e + (- 53)) = 2 powi ?e * 2 powi (- 53)"
      by (rule power_int_add) simp
    ultimately have "(2::rat) powi (?p - 1) = 2 powi ?e * 2 powi (- 53)"
      by (simp only:)
    also have "\<dots> \<le> \<bar>q\<bar> * 2 powi (- 53)"
      using binary_exponent_bounds(1) [of "\<bar>q\<bar>"] q0 by (intro mult_right_mono) auto
    also have "\<dots> = rat_of_int \<bar>s\<bar> / 2 ^ 53 / of_nat n"
      by (simp add: aq power_int_minus_divide)
    also have "\<dots> < 2 ^ 52 / 2 ^ 53 / of_nat n"
      using s52 n by (intro divide_strict_right_mono) auto
    also have "\<dots> = 1 / (2 * of_nat n)"
      by simp
    finally show ?thesis .
  next
    case False
    then have "?p - 1 = - 1075" by simp
    moreover have "(2::rat) powi (- 1075) = 1 / 2 ^ 1075"
      by (simp only: power_int_minus_divide power_int_numeral)
    ultimately have "(2::rat) powi (?p - 1) = 1 / 2 ^ 1075"
      by (simp only:)
    also have "\<dots> < 1 / 2 ^ 33"
      by (intro divide_strict_left_mono) auto
    also have "\<dots> < 1 / (2 * of_nat n)"
      using n33 n by (intro divide_strict_left_mono) auto
    finally show ?thesis .
  qed
  with err have e2: "\<bar>v - q\<bar> < 1 / (2 * of_nat n)"
    by simp
  define k where "k = \<lfloor>q + 1 / 2\<rfloor>"
  have k1: "of_int k \<le> q + 1 / 2" and k2: "q + 1 / 2 < of_int k + 1"
    unfolding k_def by linarith+
  have up: "q + 1 / (2 * of_nat n) \<le> of_int k + 1 / 2"
    unfolding q_def using assms(2) k2 by (intro half_integer_gap) (simp_all add: q_def)
  have hi: "v + 1 / 2 < of_int k + 1"
    using e2 up by (simp add: abs_less_iff)
  have lo: "of_int k \<le> v + 1 / 2"
  proof (cases "of_int k = q + 1 / 2")
    case True
    then have qk: "q = rat_of_int (2 * k - 1) * 2 powi (- 1)"
      by (simp add: power_int_minus_divide field_simps)
    have "\<bar>2 * k - 1\<bar> < 2 ^ 53"
    proof -
      have "rat_of_int \<bar>2 * k - 1\<bar> = 2 * \<bar>q\<bar>"
        using True by (simp add: abs_if field_simps split: if_splits)
      also have "\<dots> < 2 ^ 53"
        using qs by simp
      finally show ?thesis
        by (metis of_int_less_iff of_int_numeral of_int_power)
    qed
    then have "round_to_double (rat_of_int (2 * k - 1) * 2 powi (- 1))
               = Fin (rat_of_int (2 * k - 1) * 2 powi (- 1))"
      by (rule round_to_double_exact) simp_all
    then have "round_to_double q = Fin q"
      by (simp only: qk [symmetric])
    with v have "v = q" by simp
    with True show ?thesis by simp
  next
    case False
    with k1 have "of_int k - 1 / 2 < q" by simp
    then have "of_int k - 1 / 2 \<le> q - 1 / (2 * of_nat n)"
      unfolding q_def using assms(2) by (intro half_integer_gap_below) simp_all
    with e2 show ?thesis
      by (simp add: abs_less_iff)
  qed
  have "\<lfloor>v + 1 / 2\<rfloor> = k"
    using lo hi by (rule floor_unique)
  then show ?thesis
    using v by (simp add: q_def [symmetric] k_def)
qed

section \<open>Properties of the new format\<close>

lemma field_assign: "field (assign k v b) k' = (if k' = k then v else field b k')"
  by (simp add: field_def assign_def update_conv')

lemma ensure_score_field:
  "field (ensure_score b) k =
     (if k = ''authenticity_score'' \<and> nullish (field b ''authenticity_score'') then JNum (Fin 0)
      else field b k)"
  by (auto simp: ensure_score_def Let_def nullish_def field_assign)

lemma ensure_risk_level_frame:
  "ensure_risk_level rt b = Some b' \<Longrightarrow> k \<noteq> ''risk_level'' \<Longrightarrow> field b' k = field b k"
  by (auto simp: ensure_risk_level_def bind_eq_Some_conv field_assign split: if_splits)

lemma ensure_verdict_frame:
  "ensure_verdict rt b = Some b' \<Longrightarrow> k \<noteq> ''verdict'' \<Longrightarrow> field b' k = field b k"
  by (auto simp: ensure_verdict_def bind_eq_Some_conv field_assign split: if_splits)

lemma ensure_list_frame:
  "ensure_list rt key ph b = Some b' \<Longrightarrow> k \<noteq> key \<Longrightarrow> field b' k = field b k"
  by (auto simp: ensure_list_def Let_def bind_eq_Some_conv field_assign split: if_splits)

lemma ensure_category_scores_frame:
  "k \<noteq> ''category_scores'' \<Longrightarrow> field (ensure_category_scores b) k = field b k"
  by (auto simp: ensure_category_scores_def Let_def field_assign)

lemma ensure_filenames_frame:
  "ensure_filenames files b = Some b' \<Longrightarrow> k \<noteq> ''filenames'' \<Longrightarrow> field b' k = field b k"
  by (auto simp: ensure_filenames_def Let_def bind_eq_Some_conv field_assign split: if_splits)

lemma ensure_fields_steps:
  assumes "ensure_fields rt files b = Some out"
  obtains b2 b3 b4 b5 where
    "ensure_risk_level rt (ensure_score b) = Some b2"
    "ensure_verdict rt b2 = Some b3"
    "ensure_list rt ''reasons'' placeholder_reason b3 = Some b4"
    "ensure_list rt ''signals'' placeholder_signal b4 = Some b5"
    "ensure_filenames files (ensure_category_scores b5) = Some out"
  using assms unfolding ensure_fields_def by (auto simp: bind_eq_Some_conv)

lemma ensure_fields_score:
  assumes "ensure_fields rt files b = Some out"
  shows "field out ''authenticity_score'' = field (ensure_score b) ''authenticity_score''"
proof -
  from assms obtain b2 b3 b4 b5 where s:
    "ensure_risk_level rt (ensure_score b) = Some b2"
    "ensure_verdict rt b2 = Some b3"
    "ensure_list rt ''reasons'' placeholder_reason b3 = Some b4"
    "ensure_list rt ''signals'' placeholder_signal b4 = Some b5"
    "ensure_filenames files (ensure_category_scores b5) = Some out"
    by (rule ensure_fields_steps)
  have "field out ''authenticity_score'' = field (ensure_category_scores b5) ''authenticity_score''"
    using ensure_filenames_frame [OF s(5)] by simp
  also have "\<dots> = field b5 ''authenticity_score''"
    by (simp add: ensure_category_scores_frame)
  also have "\<dots> = field b4 ''authenticity_score''"
    using ensure_list_frame [OF s(4)] by simp
  also have "\<dots> = field b3 ''authenticity_score''"
    using ensure_list_frame [OF s(3)] by simp
  also have "\<dots> = field b2 ''authenticity_score''"
    using ensure_verdict_frame [OF s(2)] by simp
  also have "\<dots> = field (ensure_score b) ''authenticity_score''"
    using ensure_risk_level_frame [OF s(1)] by simp
  finally show ?thesis .
qed

lemma ensure_fields_risk_level:
  assumes "ensure_fields rt files b = Some out"
  obtains b2 where "ensure_risk_level rt (ensure_score b) = Some b2"
    and "field out ''risk_level'' = field b2 ''risk_level''"
proof -
  from assms obtain b2 b3 b4 b5 where s:
    "ensure_risk_level rt (ensure_score b) = Some b2"
    "ensure_verdict rt b2 = Some b3"
    "ensure_list rt ''reasons'' placeholder_reason b3 = Some b4"
    "ensure_list rt ''signals'' placeholder_signal b4 = Some b5"
    "ensure_filenames files (ensure_category_scores b5) = Some out"
    by (rule ensure_fields_steps)
  have "field out ''risk_level'' = field (ensure_category_scores b5) ''risk_level''"
    using ensure_filenames_frame [OF s(5)] by simp
  also have "\<dots> = field b5 ''risk_level''"
    by (simp add: ensure_category_scores_frame)
  also have "\<dots> = field b4 ''risk_level''"
    using ensure_list_frame [OF s(4)] by simp
  also have "\<dots> = field b3 ''risk_level''"
    using ensure_list_frame [OF s(3)] by simp
  also have "\<dots> = field b2 ''risk_level''"
    using ensure_verdict_frame [OF s(2)] by simp
  finally show ?thesis using that s(1) by blast
qed

lemma handle_Done_new:
  assumes "handleBatchUpload rt files cl (JObj b) = Done out" and "old_format (JObj b) = None"
  shows "ensure_fields rt files b = Some out"
  using assms by (auto simp: handleBatchUpload_def unify_def split: if_splits option.splits)

lemma handle_Done_old:
  assumes "handleBatchUpload rt files cl d = Done out" and "old_format d = Some rs"
  shows "merge_results rt files cl rs = Some out"
  using assms by (auto simp: handleBatchUpload_def unify_def split: if_splits option.splits)

lemma Done_cases:
  assumes "case h of Done out \<Rightarrow> True | _ \<Rightarrow> False"
  obtains out where "h = Done out"
  using assms by (cases h) simp_all

lemma ensure_score_number:
  "score_number b = Some s \<Longrightarrow> field (ensure_score b) ''authenticity_score'' = JNum (Fin s)"
  by (auto simp: score_number_def ensure_score_field nullish_def split: json.splits jsnum.splits)

lemma monotonic_mapping_risk_of_number: "monotonic_mapping s (risk_of_number (Fin s))"
  by (auto simp: monotonic_mapping_def risk_of_number_def)

lemma risk_of_Fin: "risk_of rt (JNum (Fin s)) = Some (risk_of_number (Fin s))"
  by (simp add: risk_of_def js_ge_def risk_of_number_def)

lemma merge_results_risk_level:
  assumes "merge_results rt files cl rs = Some out"
  obtains n where "field out ''authenticity_score'' = JNum n"
    and "field out ''risk_level'' = JStr (risk_of_number n)"
  using assms unfolding merge_results_def
  by (auto simp: bind_eq_Some_conv field_def Let_def)

lemma average_integral:
  assumes "average rt f rs = Some (Fin a)"
  shows "a \<in> \<int>"
proof -
  from assms obtain n where "Fin a = math_round n"
    by (auto simp: average_def bind_eq_Some_conv dest: sym)
  then show ?thesis
    by (cases n) auto
qed

lemma merge_results_score:
  assumes "merge_results rt files cl rs = Some out"
  obtains n where "average rt score_of rs = Some n" and "field out ''authenticity_score'' = JNum n"
  using assms unfolding merge_results_def
  by (auto simp: bind_eq_Some_conv field_def Let_def)

lemma ensure_fields_category_scores:
  assumes "ensure_fields rt files b = Some out"
  obtains b5 where "field out ''category_scores'' = field (ensure_category_scores b5) ''category_scores''"
    and "field b5 ''category_scores'' = field b ''category_scores''"
    and "field b5 ''authenticity_score'' = field (ensure_score b) ''authenticity_score''"
proof -
  from assms obtain b2 b3 b4 b5 where s:
    "ensure_risk_level rt (ensure_score b) = Some b2"
    "ensure_verdict rt b2 = Some b3"
    "ensure_list rt ''reasons'' placeholder_reason b3 = Some b4"
    "ensure_list rt ''signals'' placeholder_signal b4 = Some b5"
    "ensure_filenames files (ensure_category_scores b5) = Some out"
    by (rule ensure_fields_steps)
  have fr: "field b5 k = field (ensure_score b) k"
    if "k \<noteq> ''risk_level''" "k \<noteq> ''verdict''" "k \<noteq> ''reasons''" "k \<noteq> ''signals''" for k
    using that ensure_list_frame [OF s(4), of k] ensure_list_frame [OF s(3), of k]
      ensure_verdict_frame [OF s(2), of k] ensure_risk_level_frame [OF s(1), of k]
    by simp
  have "field out ''category_scores'' = field (ensure_category_scores b5) ''category_scores''"
    using ensure_filenames_frame [OF s(5)] by simp
  moreover have "field b5 ''category_scores'' = field b ''category_scores''"
    using fr [of "''category_scores''"] by (simp add: ensure_score_field)
  moreover have "field b5 ''authenticity_score'' = field (ensure_score b) ''authenticity_score''"
    using fr [of "''authenticity_score''"] by simp
  ultimately show ?thesis
    using that by blast
qed

lemma absent_or_all_zero_test:
  assumes "absent_or_all_zero cs"
  shows "\<not> truthy cs \<or> list_all (\<lambda>v. v = JNum (Fin 0)) (object_values cs)"
proof (cases cs rule: absent_or_all_zero.cases)
  case (3 c)
  have "field c k = JNum (Fin 0)" if "k \<in> fst ` set c" for k
  proof -
    from that obtain v where "map_of c k = Some v"
      by (metis domD dom_map_of_conv_image_fst)
    moreover from this have "(k, v) \<in> set c"
      by (rule map_of_SomeD)
    ultimately show ?thesis
      using assms 3 by (auto simp: field_def list_all_iff)
  qed
  with 3 show ?thesis
    by (auto simp: list_all_iff)
qed (use assms in auto)











section \<open>Risk level and score\<close>

text \<open>
  Claim C1 as the specification states it: for every payload the risk level of the
  result follows the mapping from its score, and a supplied risk level that contradicts
  the mapping is overwritten. The handler does not do that: the payload with score 10
  and risk level Low comes back with score 10 and risk level Low, where the mapping
  asks for High.
\<close>

theorem C1_counterexample:
  "case handleBatchUpload decimal_runtime [''a.png''] ''is it real''
          (JObj [(''authenticity_score'', JNum (Fin 10)), (''risk_level'', JStr ''Low'')]) of
     Done out \<Rightarrow>
       field out ''authenticity_score'' = JNum (Fin 10) \<and> field out ''risk_level'' = JStr ''Low''
       \<and> \<not> monotonic_mapping 10 ''Low''
   | _ \<Rightarrow> False"
  by code_simp

text \<open>
  Claim C1, amended to what lines 319 to 322 and line 291 do. In the new format, with a
  score that is a finite number (or missing, then 0): the risk level is computed from the
  score by the mapping when the supplied risk level is missing or falsy, or is High
  while the score is above 39; every other supplied risk level is kept as it came. In
  the old format the risk level always follows the mapping from the merged score.
\<close>

theorem C1_risk_level:
  assumes "handleBatchUpload rt files cl (JObj b) = Done out"
  shows "(old_format (JObj b) = None \<and> score_number b = Some s \<longrightarrow>
            (if \<not> truthy (field b ''risk_level'') \<or> (field b ''risk_level'' = JStr ''High'' \<and> 39 < s)
             then \<exists>r. field out ''risk_level'' = JStr r \<and> monotonic_mapping s r
             else field out ''risk_level'' = field b ''risk_level''))
       \<and> (old_format (JObj b) \<noteq> None \<and> field out ''authenticity_score'' = JNum (Fin s) \<longrightarrow>
            (\<exists>r. field out ''risk_level'' = JStr r \<and> monotonic_mapping s r))"
proof (intro conjI impI)
  assume a: "old_format (JObj b) = None \<and> score_number b = Some s"
  then have e: "ensure_fields rt files b = Some out"
    using assms handle_Done_new by blast
  from a have sc: "field (ensure_score b) ''authenticity_score'' = JNum (Fin s)"
    by (simp add: ensure_score_number)
  have rl: "field (ensure_score b) ''risk_level'' = field b ''risk_level''"
    by (simp add: ensure_score_field)
  from e obtain b2 where b2: "ensure_risk_level rt (ensure_score b) = Some b2"
    and out: "field out ''risk_level'' = field b2 ''risk_level''"
    by (rule ensure_fields_risk_level)
  show "if \<not> truthy (field b ''risk_level'') \<or> (field b ''risk_level'' = JStr ''High'' \<and> 39 < s)
        then \<exists>r. field out ''risk_level'' = JStr r \<and> monotonic_mapping s r
        else field out ''risk_level'' = field b ''risk_level''"
  proof (cases "\<not> truthy (field b ''risk_level'') \<or> (field b ''risk_level'' = JStr ''High'' \<and> 39 < s)")
    case True
    then have "b2 = assign ''risk_level'' (JStr (risk_of_number (Fin s))) (ensure_score b)"
      using b2 sc rl by (auto simp: ensure_risk_level_def js_gt_def risk_of_Fin split: if_splits)
    then have "field out ''risk_level'' = JStr (risk_of_number (Fin s))"
      using out by (simp add: field_assign)
    then show ?thesis
      using True monotonic_mapping_risk_of_number by auto
  next
    case False
    then have "b2 = ensure_score b"
      using b2 sc rl by (auto simp: ensure_risk_level_def js_gt_def split: if_splits)
    then show ?thesis
      using False out rl by auto
  qed
next
  assume a: "old_format (JObj b) \<noteq> None \<and> field out ''authenticity_score'' = JNum (Fin s)"
  then obtain rs where "old_format (JObj b) = Some rs" by auto
  then have "merge_results rt files cl rs = Some out"
    using assms handle_Done_old by blast
  then obtain n where "field out ''authenticity_score'' = JNum n"
    and "field out ''risk_level'' = JStr (risk_of_number n)"
    by (rule merge_results_risk_level)
  with a show "\<exists>r. field out ''risk_level'' = JStr r \<and> monotonic_mapping s r"
    using monotonic_mapping_risk_of_number by auto
qed

text \<open>The amended claim at a payload with score 55 and risk level High: the result says Medium.\<close>

theorem C1_risk_level_witness:
  "case handleBatchUpload decimal_runtime [''a.png''] ''is it real''
          (JObj [(''authenticity_score'', JNum (Fin 55)), (''risk_level'', JStr ''High'')]) of
     Done out \<Rightarrow> field out ''risk_level'' = JStr ''Medium''
   | _ \<Rightarrow> False"
proof -
  let ?b = "[(''authenticity_score'', JNum (Fin 55)), (''risk_level'', JStr ''High'')]"
  let ?h = "handleBatchUpload decimal_runtime [''a.png''] ''is it real'' (JObj ?b)"
  have "case ?h of Done out \<Rightarrow> True | _ \<Rightarrow> False"
    by code_simp
  then obtain out where e: "?h = Done out"
    by (rule Done_cases)
  have "old_format (JObj ?b) = None \<and> score_number ?b = Some 55"
    by (simp add: old_format_def score_number_def field_def)
  moreover have "field ?b ''risk_level'' = JStr ''High''"
    by (simp add: field_def)
  ultimately obtain r where "field out ''risk_level'' = JStr r" and "monotonic_mapping 55 r"
    using C1_risk_level [OF e, of 55] by auto
  then have "field out ''risk_level'' = JStr ''Medium''"
    by (simp add: monotonic_mapping_def)
  with e show ?thesis by simp
qed

text \<open>
  Claim C2 as the specification states it: the score of the result is an integer
  clamped to the range from 0 to 100, whatever number the payload holds. No statement of
  the handler clamps: the payload with score 150 comes back with score 150.
\<close>

theorem C2_counterexample:
  "case handleBatchUpload decimal_runtime [''a.png''] ''is it real''
          (JObj [(''authenticity_score'', JNum (Fin 150))]) of
     Done out \<Rightarrow> field out ''authenticity_score'' = JNum (Fin 150) \<and> \<not> clamped_score (JNum (Fin 150))
   | _ \<Rightarrow> False"
proof -
  have "\<not> clamped_score (JNum (Fin 150))"
    by (auto simp: clamped_score_def)
  moreover have "case handleBatchUpload decimal_runtime [''a.png''] ''is it real''
          (JObj [(''authenticity_score'', JNum (Fin 150))]) of
     Done out \<Rightarrow> field out ''authenticity_score'' = JNum (Fin 150) | _ \<Rightarrow> False"
    by code_simp
  ultimately show ?thesis
    by (auto split: outcome.splits)
qed

text \<open>
  Claim C2, amended to what lines 311 to 317 and line 275 do. In the new format the score
  of the result is the supplied \<^verbatim>\<open>authenticity_score\<close>, unchanged, and 0 when that is
  missing or \<^verbatim>\<open>null\<close>. In the old format it is a number, and an integer whenever it is
  finite. Nothing is clamped to the range from 0 to 100.
\<close>

theorem C2_score_as_supplied:
  assumes "handleBatchUpload rt files cl (JObj b) = Done out"
  shows "(old_format (JObj b) = None \<longrightarrow>
            field out ''authenticity_score'' =
              (if nullish (field b ''authenticity_score'') then JNum (Fin 0)
               else field b ''authenticity_score''))
       \<and> (old_format (JObj b) \<noteq> None \<longrightarrow>
            (\<exists>n. field out ''authenticity_score'' = JNum n \<and> (\<forall>a. n = Fin a \<longrightarrow> a \<in> \<int>)))"
proof (intro conjI impI)
  assume "old_format (JObj b) = None"
  then have "ensure_fields rt files b = Some out"
    using assms handle_Done_new by blast
  then show "field out ''authenticity_score'' =
      (if nullish (field b ''authenticity_score'') then JNum (Fin 0) else field b ''authenticity_score'')"
    by (simp add: ensure_fields_score ensure_score_field)
next
  assume "old_format (JObj b) \<noteq> None"
  then obtain rs where "old_format (JObj b) = Some rs" by auto
  then have "merge_results rt files cl rs = Some out"
    using assms handle_Done_old by blast
  then obtain n where "average rt score_of rs = Some n" and "field out ''authenticity_score'' = JNum n"
    by (rule merge_results_score)
  then show "\<exists>n. field out ''authenticity_score'' = JNum n \<and> (\<forall>a. n = Fin a \<longrightarrow> a \<in> \<int>)"
    using average_integral by blast
qed

text \<open>The amended claim at a payload with score -5: the result has score -5.\<close>

theorem C2_score_as_supplied_witness:
  "case handleBatchUpload decimal_runtime [''a.png''] ''is it real''
          (JObj [(''authenticity_score'', JNum (Fin (-5)))]) of
     Done out \<Rightarrow> field out ''authenticity_score'' = JNum (Fin (-5))
   | _ \<Rightarrow> False"
proof -
  let ?b = "[(''authenticity_score'', JNum (Fin (-5)))]"
  let ?h = "handleBatchUpload decimal_runtime [''a.png''] ''is it real'' (JObj ?b)"
  have "case ?h of Done out \<Rightarrow> True | _ \<Rightarrow> False"
    by code_simp
  then obtain out where e: "?h = Done out"
    by (rule Done_cases)
  have "old_format (JObj ?b) = None"
    by (simp add: old_format_def field_def)
  then have "field out ''authenticity_score'' = JNum (Fin (-5))"
    using C2_score_as_supplied [OF e] by (simp add: field_def nullish_def)
  with e show ?thesis by simp
qed

section \<open>Properties of the old format\<close>

lemma js_add_counted:
  assumes "number_or_missing v"
  shows "js_add rt (JNum acc) (js_or v (JNum (Fin 0))) = Some (JNum (num_add acc (Fin (counted v))))"
  using assms by (cases v rule: number_or_missing.cases) (auto simp: js_add_def js_or_def)

lemma reduce_sum_numbers:
  assumes "\<And>r. r \<in> set rs \<Longrightarrow> \<exists>v. f r = Some v \<and> number_or_missing v \<and> counted v = g r"
  shows "reduce_sum rt f (JNum acc) rs = Some (JNum (double_sum acc (map g rs)))"
  using assms
proof (induction rs arbitrary: acc)
  case Nil
  then show ?case by (simp add: double_sum_def)
next
  case (Cons r rs)
  from Cons.prems [of r] obtain v where v: "f r = Some v" "number_or_missing v" "counted v = g r"
    by auto
  have "reduce_sum rt f (JNum (num_add acc (Fin (g r)))) rs
        = Some (JNum (double_sum (num_add acc (Fin (g r))) (map g rs)))"
    using Cons.prems by (intro Cons.IH) auto
  then show ?case
    using v by (simp add: js_add_counted double_sum_def)
qed

lemma average_numbers:
  assumes "\<And>r. r \<in> set rs \<Longrightarrow> \<exists>v. f r = Some v \<and> number_or_missing v \<and> counted v = g r"
  shows "average rt f rs = Some (double_mean (map g rs))"
  using reduce_sum_numbers [of rs f g rt "Fin 0", OF assms]
  by (simp add: average_def double_mean_def)

lemma whole_int:
  assumes "whole x"
  obtains j where "x = rat_of_int j" and "\<bar>j\<bar> \<le> 2 ^ 20"
proof -
  from assms have "rat_of_int \<lfloor>x\<rfloor> = x" and b: "\<bar>x\<bar> \<le> 2 ^ 20"
    unfolding whole_def by blast+
  then have x: "x = rat_of_int \<lfloor>x\<rfloor>"
    by (simp only:)
  from b x have "rat_of_int \<bar>\<lfloor>x\<rfloor>\<bar> \<le> rat_of_int (2 ^ 20)"
    by (metis of_int_abs of_int_numeral of_int_power)
  then have "\<bar>\<lfloor>x\<rfloor>\<bar> \<le> 2 ^ 20"
    by (simp only: of_int_le_iff)
  with x show ?thesis
    using that by blast
qed

lemma double_sum_whole:
  assumes "list_all whole xs" and "\<bar>i\<bar> + int (length xs) * 2 ^ 20 < 2 ^ 53"
  shows "\<exists>s. double_sum (Fin (of_int i)) xs = Fin (of_int s) \<and> rat_of_int s = of_int i + sum_list xs
            \<and> \<bar>s\<bar> \<le> \<bar>i\<bar> + int (length xs) * 2 ^ 20"
  using assms
proof (induction xs arbitrary: i)
  case Nil
  then show ?case by (simp add: double_sum_def)
next
  case (Cons x xs)
  from Cons.prems(1) obtain j where j: "x = rat_of_int j" "\<bar>j\<bar> \<le> 2 ^ 20"
    by (auto elim: whole_int)
  have b: "\<bar>i + j\<bar> + int (length xs) * 2 ^ 20 \<le> \<bar>i\<bar> + int (length (x # xs)) * 2 ^ 20"
    using j(2) by (simp add: algebra_simps)
  have nn: "0 \<le> int (length xs) * 2 ^ 20"
    by simp
  have "\<bar>i + j\<bar> < 2 ^ 53"
    using b nn Cons.prems(2) by linarith
  then have "round_to_double (rat_of_int (i + j)) = Fin (rat_of_int (i + j))"
    by (rule round_to_double_of_int)
  then have step: "num_add (Fin (rat_of_int i)) (Fin x) = Fin (rat_of_int (i + j))"
    by (simp add: j(1))
  from Cons.prems(1) have "list_all whole xs"
    by simp
  moreover have "\<bar>i + j\<bar> + int (length xs) * 2 ^ 20 < 2 ^ 53"
    using b Cons.prems(2) by linarith
  ultimately obtain s where s: "double_sum (Fin (rat_of_int (i + j))) xs = Fin (rat_of_int s)"
      "rat_of_int s = rat_of_int (i + j) + sum_list xs"
      "\<bar>s\<bar> \<le> \<bar>i + j\<bar> + int (length xs) * 2 ^ 20"
    using Cons.IH by blast
  have "double_sum (Fin (rat_of_int i)) (x # xs) = Fin (rat_of_int s)"
    using s(1) step by (simp add: double_sum_def)
  moreover have "rat_of_int s = rat_of_int i + sum_list (x # xs)"
    using s(2) j(1) by simp
  moreover have "\<bar>s\<bar> \<le> \<bar>i\<bar> + int (length (x # xs)) * 2 ^ 20"
    using s(3) b by linarith
  ultimately show ?case by blast
qed

lemma double_mean_whole:
  assumes "list_all whole xs" and "xs \<noteq> []" and "length xs < 2 ^ 32"
  shows "double_mean xs = Fin (of_int \<lfloor>mean xs + 1 / 2\<rfloor>)"
proof -
  have "int (length xs) < 2 ^ 32"
    using assms(3) by (metis of_nat_less_iff of_nat_numeral of_nat_power)
  then have "int (length xs) * 2 ^ 20 < 2 ^ 32 * 2 ^ 20"
    by (intro mult_strict_right_mono) auto
  then have l: "int (length xs) * 2 ^ 20 < 2 ^ 52"
    by simp
  then have "\<bar>0\<bar> + int (length xs) * 2 ^ 20 < 2 ^ 53"
    by simp
  from double_sum_whole [OF assms(1) this]
  obtain s where s: "double_sum (Fin 0) xs = Fin (rat_of_int s)" "rat_of_int s = sum_list xs"
      "\<bar>s\<bar> \<le> int (length xs) * 2 ^ 20"
    by auto
  have "\<bar>s\<bar> < 2 ^ 52"
    using s(3) l by linarith
  moreover have "0 < length xs"
    using assms(2) by simp
  ultimately have "math_round (round_to_double (rat_of_int s / of_nat (length xs)))
        = Fin (of_int \<lfloor>rat_of_int s / of_nat (length xs) + 1 / 2\<rfloor>)"
    using assms(3) by (rule round_quotient)
  then show ?thesis
    by (simp add: double_mean_def s(1) s(2) [symmetric] mean_def)
qed

lemma floor_half_nearest: "nearest_integer_ties_up q \<lfloor>q + 1 / 2\<rfloor>"
  unfolding nearest_integer_ties_up_def by linarith

lemma file_result_score:
  assumes "file_result r"
  shows "\<exists>v. score_of r = Some v \<and> number_or_missing v \<and> counted v = file_score r"
  using assms by (auto simp: file_result_def score_of_def file_score_def split: json.splits)

lemma file_result_category:
  assumes "file_result r" and "k \<in> set category_keys"
  shows "\<exists>v. category_of k r = Some v \<and> number_or_missing v \<and> counted v = file_category k r"
proof -
  from assms(1) obtain e where r: "r = JObj e"
    and c: "categories_or_missing (field e ''category_scores'')"
    by (auto simp: file_result_def split: json.splits)
  show ?thesis
  proof (cases "field e ''category_scores''" rule: categories_or_missing.cases)
    case (3 c')
    with c assms(2) have "number_or_missing (field c' k)"
      by (simp add: list_all_iff)
    with 3 r show ?thesis
      by (simp add: category_of_def file_category_def nullish_def)
  qed (use r c in \<open>auto simp: category_of_def file_category_def nullish_def\<close>)
qed

lemma average_categories_numbers:
  assumes "list_all file_result rs" and "set ks \<subseteq> set category_keys"
  shows "average_categories rt rs ks =
     Some (map (\<lambda>k. (k, JNum (double_mean (map (file_category k) rs)))) ks)"
  using assms(2)
proof (induction ks)
  case Nil
  then show ?case by simp
next
  case (Cons k ks)
  have "average rt (category_of k) rs = Some (double_mean (map (file_category k) rs))"
    using assms(1) Cons.prems by (intro average_numbers file_result_category) (auto simp: list_all_iff)
  with Cons show ?case by simp
qed

lemma flat_map_field_strings:
  assumes "list_all file_result rs" and "k = ''reasons'' \<or> k = ''signals''"
  shows "flat_map_field k rs = Some (concat (map (file_strings k) rs))"
  using assms(1)
proof (induction rs)
  case Nil
  then show ?case by simp
next
  case (Cons r rs)
  then obtain e where r: "r = JObj e" and s: "strings_or_missing (field e k)"
    using assms(2) by (auto simp: file_result_def split: json.splits)
  have "(case js_or (field e k) (JArr []) of JArr ys \<Rightarrow> ys | w \<Rightarrow> [w]) = file_strings k r"
    using s r by (cases "field e k" rule: strings_or_missing.cases) (auto simp: js_or_def file_strings_def)
  with Cons r show ?case by simp
qed

lemma map_field_objects:
  assumes "list_all file_result rs"
  shows "map_field k rs = Some (map (\<lambda>r. case r of JObj e \<Rightarrow> field e k | _ \<Rightarrow> JUndefined) rs)"
  using assms by (induction rs) (auto simp: file_result_def split: json.splits)

lemma array_join_strings:
  assumes "list_all string_or_missing xs"
  shows "\<exists>s. array_join rt sep xs = Some s"
proof -
  have "\<exists>ys. those (map (\<lambda>v. if nullish v then Some [] else to_string rt v) xs) = Some ys"
    using assms
  proof (induction xs)
    case Nil
    then show ?case by simp
  next
    case (Cons x xs)
    then obtain ys where "those (map (\<lambda>v. if nullish v then Some [] else to_string rt v) xs) = Some ys"
      by auto
    moreover from Cons.prems have "\<exists>s. (if nullish x then Some [] else to_string rt x) = Some s"
      by (cases x rule: string_or_missing.cases) (auto simp: nullish_def)
    ultimately show ?case by auto
  qed
  then show ?thesis by (auto simp: array_join_def)
qed

lemma field_map_keys:
  "field (map (\<lambda>k. (k, f k)) ks) k = (if k \<in> set ks then f k else JUndefined)"
  by (induction ks) (auto simp: field_def)

lemma set_first_occurrences: "set (first_occurrences xs) = set xs"
  by (induction xs rule: first_occurrences.induct) auto

lemma distinct_first_occurrences: "distinct (first_occurrences xs)"
  by (induction xs rule: first_occurrences.induct) (auto simp: set_first_occurrences)

lemma new_set_strings_aux:
  assumes "list_all is_string seen" and "list_all is_string xs"
  shows "foldl set_add seen xs = seen @ first_occurrences (filter (\<lambda>x. x \<notin> set seen) xs)"
  using assms
proof (induction xs arbitrary: seen)
  case Nil
  then show ?case by simp
next
  case (Cons x xs)
  from Cons.prems obtain s where x: "x = JStr s"
    by (cases x) auto
  have ex: "list_ex (\<lambda>y. same_value_zero y x) seen = (x \<in> set seen)"
    using Cons.prems(1) x by (induction seen) (auto elim: is_string.elims)
  have add: "set_add seen x = (if x \<in> set seen then seen else seen @ [x])"
    using ex by (simp add: set_add_def)
  show ?case
  proof (cases "x \<in> set seen")
    case True
    then show ?thesis
      using Cons add by simp
  next
    case False
    have "foldl set_add (seen @ [x]) xs
          = (seen @ [x]) @ first_occurrences (filter (\<lambda>y. y \<notin> set (seen @ [x])) xs)"
      using Cons.prems x by (intro Cons.IH) auto
    moreover have "filter (\<lambda>y. y \<notin> set (seen @ [x])) xs
          = filter (\<lambda>y. y \<noteq> x) (filter (\<lambda>y. y \<notin> set seen) xs)"
      by (induction xs) auto
    ultimately show ?thesis
      using False add by simp
  qed
qed

lemma new_set_strings:
  assumes "list_all is_string xs"
  shows "new_set xs = first_occurrences xs"
  using new_set_strings_aux [of "[]" xs] assms by (simp add: new_set_def)

lemma file_strings_strings:
  assumes "list_all file_result rs" and "k = ''reasons'' \<or> k = ''signals''"
  shows "list_all is_string (concat (map (file_strings k) rs))"
  using assms
  by (induction rs) (auto simp: file_result_def file_strings_def list_all_iff split: json.splits elim!: strings_or_missing.elims)

lemma merge_results_file_results:
  assumes "list_all file_result rs"
  obtains out where "merge_results rt files cl rs = Some out"
    and "field out ''authenticity_score'' = JNum (double_mean (map file_score rs))"
    and "field out ''risk_level'' = JStr (risk_of_number (double_mean (map file_score rs)))"
    and "field out ''category_scores'' =
           JObj (map (\<lambda>k. (k, JNum (double_mean (map (file_category k) rs)))) category_keys)"
    and "field out ''reasons'' = JArr (take 7 (concat (map (file_strings ''reasons'') rs)))"
    and "field out ''signals'' = JArr (take 7 (first_occurrences (concat (map (file_strings ''signals'') rs))))"
proof -
  have a: "average rt score_of rs = Some (double_mean (map file_score rs))"
    using assms by (intro average_numbers file_result_score) (auto simp: list_all_iff)
  have c: "average_categories rt rs category_keys =
     Some (map (\<lambda>k. (k, JNum (double_mean (map (file_category k) rs)))) category_keys)"
    using assms by (intro average_categories_numbers) auto
  have r: "flat_map_field ''reasons'' rs = Some (concat (map (file_strings ''reasons'') rs))"
    using assms by (intro flat_map_field_strings) auto
  have s: "flat_map_field ''signals'' rs = Some (concat (map (file_strings ''signals'') rs))"
    using assms by (intro flat_map_field_strings) auto
  have d: "new_set (concat (map (file_strings ''signals'') rs))
           = first_occurrences (concat (map (file_strings ''signals'') rs))"
    using assms by (intro new_set_strings file_strings_strings) auto
  have "list_all string_or_missing (map (\<lambda>r. case r of JObj e \<Rightarrow> field e ''verdict'' | _ \<Rightarrow> JUndefined) rs)"
    using assms by (auto simp: list_all_iff file_result_def split: json.splits)
  then obtain j where j: "array_join rt '' | ''
      (map (\<lambda>r. case r of JObj e \<Rightarrow> field e ''verdict'' | _ \<Rightarrow> JUndefined) rs) = Some j"
    using array_join_strings by blast
  let ?n = "length rs"
  let ?names = "filter truthy (map (\<lambda>r. case r of JObj e \<Rightarrow> field e ''filename'' | _ \<Rightarrow> JUndefined) rs)"
  let ?avg = "double_mean (map file_score rs)"
  let ?out = "[(''authenticity_score'', JNum ?avg),
     (''risk_level'', JStr (risk_of_number ?avg)),
     (''verdict'', JStr (''Unified analysis of '' @ num_to_string rt (Fin (of_nat ?n))
         @ '' file'' @ (if ?n \<noteq> 1 then ''s'' else []) @ '': '' @ j)),
     (''reasons'', JArr (take 7 (concat (map (file_strings ''reasons'') rs)))),
     (''signals'', JArr (take 7 (first_occurrences (concat (map (file_strings ''signals'') rs))))),
     (''category_scores'',
        JObj (map (\<lambda>k. (k, JNum (double_mean (map (file_category k) rs)))) category_keys)),
     (''filenames'', JArr (if ?names \<noteq> [] then ?names else map JStr files)),
     (''claim'', JStr cl),
     (''batch_size'', JNum (Fin (of_nat ?n))),
     (''analysis_type'', JStr ''multimodal_batch_combined'')]"
  have "merge_results rt files cl rs = Some ?out"
    by (simp add: merge_results_def a c r s d j map_field_objects [OF assms] Let_def)
  then show ?thesis
    by (rule that) (simp_all add: field_def)
qed

lemma handle_old_format:
  assumes "files \<noteq> []" and "field b ''results'' = JArr rs" and "rs \<noteq> []"
    and "merge_results rt files cl rs = Some out"
  shows "handleBatchUpload rt files cl (JObj b) = Done out"
  using assms by (simp add: handleBatchUpload_def unify_def old_format_def)

section \<open>The merge of the old format\<close>

text \<open>
  Claim C3 as the specification states it: the merged score is the arithmetic mean of the
  per-file scores rounded to the nearest integer, a tie going up. Line 275 adds and
  divides in double arithmetic, and the rounding of a sum can move the mean across a tie.
  The six per-file scores below are the doubles that \<^verbatim>\<open>JSON.parse\<close> reads from 44.5, 93.2,
  98.7, 38.7, 82.5 and 59.4. Their mean lies above 69.5 and rounds to 70, risk level Low;
  their sum in double arithmetic is 416.99999999999994, and the handler returns the score
  69 with risk level Medium.
\<close>

theorem C3_counterexample:
  "case handleBatchUpload decimal_runtime
          [''a.png'', ''b.png'', ''c.png'', ''d.png'', ''e.png'', ''f.png''] ''is it real''
          (JObj [(''results'', JArr
             [JObj [(''authenticity_score'', JNum (round_to_double (89 / 2)))],
              JObj [(''authenticity_score'', JNum (round_to_double (466 / 5)))],
              JObj [(''authenticity_score'', JNum (round_to_double (987 / 10)))],
              JObj [(''authenticity_score'', JNum (round_to_double (387 / 10)))],
              JObj [(''authenticity_score'', JNum (round_to_double (165 / 2)))],
              JObj [(''authenticity_score'', JNum (round_to_double (297 / 5)))]])]) of
     Done out \<Rightarrow>
       field out ''authenticity_score'' = JNum (Fin 69) \<and> field out ''risk_level'' = JStr ''Medium''
       \<and> nearest_integer_ties_up
            (mean (map file_score
               [JObj [(''authenticity_score'', JNum (round_to_double (89 / 2)))],
                JObj [(''authenticity_score'', JNum (round_to_double (466 / 5)))],
                JObj [(''authenticity_score'', JNum (round_to_double (987 / 10)))],
                JObj [(''authenticity_score'', JNum (round_to_double (387 / 10)))],
                JObj [(''authenticity_score'', JNum (round_to_double (165 / 2)))],
                JObj [(''authenticity_score'', JNum (round_to_double (297 / 5)))]])) 70
   | _ \<Rightarrow> False"
  by code_simp

text \<open>
  Claim C3, amended to what lines 274 to 296 compute. In the merge of the old format,
  with per-file results typed as the interface types them (a missing value counting as
  0): the merged score and each of the six category scores are \<^verbatim>\<open>Math.round\<close> of the mean
  computed in double arithmetic, and the risk level follows the mapping from the merged
  score. When the per-file values are whole numbers, the merged score and the six
  category scores are the arithmetic mean rounded to the nearest integer, a tie going
  up.
\<close>

theorem C3_merge_averages:
  assumes "files \<noteq> []" and "field b ''results'' = JArr rs" and "rs \<noteq> []"
    and "list_all file_result rs"
  shows "\<exists>out. handleBatchUpload rt files cl (JObj b) = Done out
      \<and> field out ''authenticity_score'' = JNum (double_mean (map file_score rs))
      \<and> field out ''risk_level'' = JStr (risk_of_number (double_mean (map file_score rs)))
      \<and> (\<forall>k \<in> set category_keys.
            get_prop (field out ''category_scores'') k = Some (JNum (double_mean (map (file_category k) rs))))
      \<and> (list_all whole_numbers rs \<and> length rs < 2 ^ 32 \<longrightarrow>
           (\<exists>m r. field out ''authenticity_score'' = JNum (Fin (of_int m))
              \<and> nearest_integer_ties_up (mean (map file_score rs)) m
              \<and> field out ''risk_level'' = JStr r \<and> monotonic_mapping (of_int m) r
              \<and> (\<forall>k \<in> set category_keys. \<exists>c.
                    get_prop (field out ''category_scores'') k = Some (JNum (Fin (of_int c)))
                    \<and> nearest_integer_ties_up (mean (map (file_category k) rs)) c)))"
proof -
  from assms(4) obtain out where out: "merge_results rt files cl rs = Some out"
    and sc: "field out ''authenticity_score'' = JNum (double_mean (map file_score rs))"
    and rl: "field out ''risk_level'' = JStr (risk_of_number (double_mean (map file_score rs)))"
    and cs: "field out ''category_scores'' =
           JObj (map (\<lambda>k. (k, JNum (double_mean (map (file_category k) rs)))) category_keys)"
    by (rule merge_results_file_results [where rt = rt and files = files and cl = cl])
  have h: "handleBatchUpload rt files cl (JObj b) = Done out"
    using assms(1-3) out by (rule handle_old_format)
  have ck: "\<forall>k \<in> set category_keys.
      get_prop (field out ''category_scores'') k = Some (JNum (double_mean (map (file_category k) rs)))"
    by (simp add: cs field_map_keys)
  have w: "\<exists>m r. field out ''authenticity_score'' = JNum (Fin (of_int m))
              \<and> nearest_integer_ties_up (mean (map file_score rs)) m
              \<and> field out ''risk_level'' = JStr r \<and> monotonic_mapping (of_int m) r
              \<and> (\<forall>k \<in> set category_keys. \<exists>c.
                    get_prop (field out ''category_scores'') k = Some (JNum (Fin (of_int c)))
                    \<and> nearest_integer_ties_up (mean (map (file_category k) rs)) c)"
    if wn: "list_all whole_numbers rs" and n: "length rs < 2 ^ 32"
  proof -
    have "list_all whole (map file_score rs)"
      using wn by (simp add: list_all_iff whole_numbers_def)
    then have m: "double_mean (map file_score rs) = Fin (of_int \<lfloor>mean (map file_score rs) + 1 / 2\<rfloor>)"
      using assms(3) n by (intro double_mean_whole) simp_all
    have c: "double_mean (map (file_category k) rs) = Fin (of_int \<lfloor>mean (map (file_category k) rs) + 1 / 2\<rfloor>)"
      if "k \<in> set category_keys" for k
    proof -
      have "list_all whole (map (file_category k) rs)"
        using wn that by (simp add: list_all_iff whole_numbers_def)
      then show ?thesis
        using assms(3) n by (intro double_mean_whole) simp_all
    qed
    have "\<forall>k \<in> set category_keys. \<exists>c.
            get_prop (field out ''category_scores'') k = Some (JNum (Fin (of_int c)))
            \<and> nearest_integer_ties_up (mean (map (file_category k) rs)) c"
      using ck c floor_half_nearest by auto
    then show ?thesis
      using sc rl m floor_half_nearest monotonic_mapping_risk_of_number by metis
  qed
  show ?thesis
    using h sc rl ck w by blast
qed

text \<open>The three per-file scores 95, 90 and 85 merge to the score 90 with risk level Low.\<close>

theorem C3_merge_averages_witness:
  "case handleBatchUpload decimal_runtime [''a.png'', ''b.png'', ''c.png''] ''is it real''
          (JObj [(''results'', JArr
             [JObj [(''authenticity_score'', JNum (Fin 95))],
              JObj [(''authenticity_score'', JNum (Fin 90))],
              JObj [(''authenticity_score'', JNum (Fin 85))]])]) of
     Done out \<Rightarrow> field out ''authenticity_score'' = JNum (Fin 90) \<and> field out ''risk_level'' = JStr ''Low''
   | _ \<Rightarrow> False"
proof -
  let ?rs = "[JObj [(''authenticity_score'', JNum (Fin 95))],
              JObj [(''authenticity_score'', JNum (Fin 90))],
              JObj [(''authenticity_score'', JNum (Fin 85))]]"
  let ?b = "[(''results'', JArr ?rs)]"
  have f: "[''a.png'', ''b.png'', ''c.png''] \<noteq> []" by simp
  have r: "field ?b ''results'' = JArr ?rs" by (simp add: field_def)
  have n: "?rs \<noteq> []" by simp
  have t: "list_all file_result ?rs" by (simp add: file_result_def field_def)
  have w: "list_all whole_numbers ?rs \<and> length ?rs < 2 ^ 32"
    by (simp add: whole_numbers_def whole_def file_score_def file_category_def field_def category_keys_def)
  have mn: "mean (map file_score ?rs) = 90" by (simp add: mean_def file_score_def field_def)
  from C3_merge_averages [OF f r n t, of decimal_runtime "''is it real''"] w
  obtain out m r where e: "handleBatchUpload decimal_runtime [''a.png'', ''b.png'', ''c.png''] ''is it real'' (JObj ?b) = Done out"
    and sc: "field out ''authenticity_score'' = JNum (Fin (of_int m))"
    and nr: "nearest_integer_ties_up (mean (map file_score ?rs)) m"
    and rl: "field out ''risk_level'' = JStr r" and mm: "monotonic_mapping (of_int m) r"
    by blast
  from nr have "rat_of_int m \<le> 90 + 1 / 2" and "(90::rat) + 1 / 2 < rat_of_int m + 1"
    unfolding mn nearest_integer_ties_up_def by linarith+
  then have "\<lfloor>(90::rat) + 1 / 2\<rfloor> = m"
    by (rule floor_unique)
  then have m: "m = 90" by linarith
  with mm have "r = ''Low''" by (simp add: monotonic_mapping_def)
  with e sc rl m show ?thesis by simp
qed

text \<open>
  Claim C6: in the merge of the old format, the merged reasons are the per-file reasons
  concatenated in file order and cut to at most 7 entries; the merged signals are the
  per-file signals concatenated, each duplicate after its first occurrence removed, and
  then cut to at most 7 entries.
\<close>

theorem C6_merge_reasons_signals:
  assumes "files \<noteq> []" and "field b ''results'' = JArr rs" and "rs \<noteq> []"
    and "list_all file_result rs"
  shows "\<exists>out. handleBatchUpload rt files cl (JObj b) = Done out
      \<and> field out ''reasons'' = JArr (take 7 (concat (map (file_strings ''reasons'') rs)))
      \<and> field out ''signals'' = JArr (take 7 (first_occurrences (concat (map (file_strings ''signals'') rs))))"
proof -
  from assms(4) obtain out where out: "merge_results rt files cl rs = Some out"
    and "field out ''reasons'' = JArr (take 7 (concat (map (file_strings ''reasons'') rs)))"
    and "field out ''signals'' = JArr (take 7 (first_occurrences (concat (map (file_strings ''signals'') rs))))"
    by (rule merge_results_file_results [where rt = rt and files = files and cl = cl])
  moreover have "handleBatchUpload rt files cl (JObj b) = Done out"
    using assms(1-3) out by (rule handle_old_format)
  ultimately show ?thesis by blast
qed

text \<open>
  Two files with four reasons each and overlapping signals: seven reasons stay, a repeated
  reason among them, and each signal stays once, where it came first.
\<close>

theorem C6_merge_reasons_signals_witness:
  "case handleBatchUpload decimal_runtime [''a.png'', ''b.png''] ''is it real''
          (JObj [(''results'', JArr
             [JObj [(''reasons'', JArr [JStr ''r1'', JStr ''r2'', JStr ''r3'', JStr ''r4'']),
                    (''signals'', JArr [JStr ''s1'', JStr ''s2'', JStr ''s1''])],
              JObj [(''reasons'', JArr [JStr ''r5'', JStr ''r1'', JStr ''r6'', JStr ''r7'']),
                    (''signals'', JArr [JStr ''s2'', JStr ''s3''])]])]) of
     Done out \<Rightarrow>
       field out ''reasons'' =
         JArr [JStr ''r1'', JStr ''r2'', JStr ''r3'', JStr ''r4'', JStr ''r5'', JStr ''r1'', JStr ''r6'']
       \<and> field out ''signals'' = JArr [JStr ''s1'', JStr ''s2'', JStr ''s3'']
   | _ \<Rightarrow> False"
proof -
  let ?rs = "[JObj [(''reasons'', JArr [JStr ''r1'', JStr ''r2'', JStr ''r3'', JStr ''r4'']),
                    (''signals'', JArr [JStr ''s1'', JStr ''s2'', JStr ''s1''])],
              JObj [(''reasons'', JArr [JStr ''r5'', JStr ''r1'', JStr ''r6'', JStr ''r7'']),
                    (''signals'', JArr [JStr ''s2'', JStr ''s3''])]]"
  let ?b = "[(''results'', JArr ?rs)]"
  have f: "[''a.png'', ''b.png''] \<noteq> []" by simp
  have r: "field ?b ''results'' = JArr ?rs" by (simp add: field_def)
  have n: "?rs \<noteq> []" by simp
  have t: "list_all file_result ?rs" by (simp add: file_result_def field_def)
  from C6_merge_reasons_signals [OF f r n t, of decimal_runtime "''is it real''"]
  obtain out where e: "handleBatchUpload decimal_runtime [''a.png'', ''b.png''] ''is it real'' (JObj ?b) = Done out"
    and "field out ''reasons'' = JArr (take 7 (concat (map (file_strings ''reasons'') ?rs)))"
    and "field out ''signals'' = JArr (take 7 (first_occurrences (concat (map (file_strings ''signals'') ?rs))))"
    by blast
  then show ?thesis
    by (simp add: file_strings_def field_def)
qed

section \<open>Category scores\<close>

text \<open>
  Claim C4 as the specification states it: for every normalized finding, category scores
  that were absent or all zero are replaced by six copies of the score. The merge of the
  old format has no such step: one per-file result with score 62 and no category scores
  merges to the score 62 with all six category scores 0.
\<close>

theorem C4_counterexample:
  "case handleBatchUpload decimal_runtime [''a.png''] ''is it real''
          (JObj [(''results'', JArr [JObj [(''authenticity_score'', JNum (Fin 62))]])]) of
     Done out \<Rightarrow>
       field out ''authenticity_score'' = JNum (Fin 62)
       \<and> field out ''category_scores'' = JObj (map (\<lambda>k. (k, JNum (Fin 0))) category_keys)
   | _ \<Rightarrow> False"
  by code_simp

text \<open>
  Claim C4, amended to the path that has the backfill (lines 344 to 354). In the new
  format, with a score that is a finite number (or missing, then 0): when the payload's
  category scores are absent, or an object whose values are all zero, each of the six
  category keys of the result equals the score of the result.
\<close>

theorem C4_category_backfill:
  assumes "handleBatchUpload rt files cl (JObj b) = Done out"
    and "old_format (JObj b) = None"
    and "score_number b = Some s"
    and "absent_or_all_zero (field b ''category_scores'')"
  shows "field out ''authenticity_score'' = JNum (Fin s)
       \<and> (\<forall>k \<in> set category_keys. get_prop (field out ''category_scores'') k = Some (JNum (Fin s)))"
proof -
  have e: "ensure_fields rt files b = Some out"
    using assms(1,2) by (rule handle_Done_new)
  have sc: "field (ensure_score b) ''authenticity_score'' = JNum (Fin s)"
    using assms(3) by (rule ensure_score_number)
  from e obtain b5 where out: "field out ''category_scores'' = field (ensure_category_scores b5) ''category_scores''"
    and cs: "field b5 ''category_scores'' = field b ''category_scores''"
    and s5: "field b5 ''authenticity_score'' = field (ensure_score b) ''authenticity_score''"
    by (rule ensure_fields_category_scores)
  have "\<not> truthy (field b5 ''category_scores'')
        \<or> list_all (\<lambda>v. v = JNum (Fin 0)) (object_values (field b5 ''category_scores''))"
    unfolding cs using assms(4) by (rule absent_or_all_zero_test)
  moreover have "js_or (JNum (Fin s)) (JNum (Fin 0)) = JNum (Fin s)"
    by (simp add: js_or_def)
  ultimately have "field out ''category_scores'' = JObj (map (\<lambda>k. (k, JNum (Fin s))) category_keys)"
    unfolding out using s5 sc by (auto simp: ensure_category_scores_def Let_def field_assign)
  then have "\<forall>k \<in> set category_keys. get_prop (field out ''category_scores'') k = Some (JNum (Fin s))"
    by (simp add: field_map_keys)
  moreover have "field out ''authenticity_score'' = JNum (Fin s)"
    using e sc by (simp add: ensure_fields_score)
  ultimately show ?thesis by blast
qed

text \<open>The payload with score 62 and no category scores: all six keys are 62.\<close>

theorem C4_category_backfill_witness:
  "case handleBatchUpload decimal_runtime [''a.png''] ''is it real''
          (JObj [(''authenticity_score'', JNum (Fin 62))]) of
     Done out \<Rightarrow>
       field out ''authenticity_score'' = JNum (Fin 62)
       \<and> list_all (\<lambda>k. get_prop (field out ''category_scores'') k = Some (JNum (Fin 62))) category_keys
   | _ \<Rightarrow> False"
proof -
  let ?b = "[(''authenticity_score'', JNum (Fin 62))]"
  let ?h = "handleBatchUpload decimal_runtime [''a.png''] ''is it real'' (JObj ?b)"
  have "case ?h of Done out \<Rightarrow> True | _ \<Rightarrow> False"
    by code_simp
  then obtain out where e: "?h = Done out"
    by (rule Done_cases)
  have o: "old_format (JObj ?b) = None"
    by (simp add: old_format_def field_def)
  have s: "score_number ?b = Some 62"
    by (simp add: score_number_def field_def)
  have c: "absent_or_all_zero (field ?b ''category_scores'')"
    by (simp add: field_def)
  from C4_category_backfill [OF e o s c] e show ?thesis
    by (simp add: list_all_iff)
qed

section \<open>The verdict\<close>




section \<open>Errors and repairs\<close>





section \<open>Emphasis of risky words\<close>








section \<open>Properties of the layout\<close>

lemma laying_out_new: "laying_out new_pdf"
  by (simp add: laying_out_def left_aligned_def page_valid_def new_pdf_def)

lemma laying_out_setFontSize: "laying_out (setFontSize n st) = laying_out st"
  by (simp add: laying_out_def left_aligned_def page_valid_def setFontSize_def)

lemma laying_out_setFont: "laying_out (setFont b st) = laying_out st"
  by (simp add: laying_out_def left_aligned_def page_valid_def setFont_def)

lemma laying_out_advance: "laying_out (advance d st) = laying_out st"
  by (simp add: laying_out_def left_aligned_def page_valid_def advance_def)

lemma laying_out_yPos: "laying_out (st\<lparr> yPos := v \<rparr>) = laying_out st"
  by (simp add: laying_out_def left_aligned_def page_valid_def)

lemma laying_out_pdf_text:
  assumes "laying_out st"
  shows "laying_out (pdf_text ls x y False st)"
proof -
  let ?i = "page st - 1"
  let ?d = "\<lparr> content = ls, at_x = x, at_y = y, with_size = fontSize st,
             with_bold = fontBold st, centered = False \<rparr>"
  from assms have i: "?i < length (pages st)"
    by (auto simp: laying_out_def page_valid_def)
  have "list_all (\<lambda>d. \<not> centered d) (pages st ! ?i @ [?d])"
    using assms i by (auto simp: laying_out_def left_aligned_def list_all_iff)
  moreover have "set ((pages st)[?i := pages st ! ?i @ [?d]]) \<subseteq> insert (pages st ! ?i @ [?d]) (set (pages st))"
    by (rule set_update_subset_insert)
  ultimately have "list_all (list_all (\<lambda>d. \<not> centered d)) ((pages st)[?i := pages st ! ?i @ [?d]])"
    using assms unfolding laying_out_def left_aligned_def list_all_iff by blast
  then show ?thesis
    using assms by (simp add: laying_out_def left_aligned_def page_valid_def pdf_text_def)
qed

lemma laying_out_write_lines: "laying_out st \<Longrightarrow> laying_out (write_lines ls x st)"
  by (simp add: write_lines_def laying_out_pdf_text)

lemma laying_out_addPage: "laying_out st \<Longrightarrow> laying_out (addPage st)"
  by (simp add: laying_out_def left_aligned_def page_valid_def addPage_def)

lemma laying_out_checkPageBreak: "laying_out st \<Longrightarrow> laying_out (snd (checkPageBreak env k st))"
  by (simp add: checkPageBreak_def laying_out_yPos laying_out_addPage)

lemma laying_out_render_part:
  assumes "laying_out (snd (snd s))"
  shows "laying_out (snd (snd (render_part env fs x w p s)))"
  using assms
  by (cases s) (simp add: render_part_def Let_def laying_out_pdf_text laying_out_setFontSize laying_out_setFont)

lemma fold_preserves:
  assumes "\<And>x s. P s \<Longrightarrow> P (f x s)" and "P s"
  shows "P (fold f xs s)"
  using assms(2) by (induction xs arbitrary: s) (auto intro: assms(1))

lemma laying_out_renderTextWithBold:
  assumes "laying_out st"
  shows "laying_out (snd (renderTextWithBold env t x y w st))"
proof -
  have "laying_out (snd (snd (fold (render_part env (fontSize st) x w) (highlightRiskyWords t) (x, y, st))))"
    by (rule fold_preserves [where P = "\<lambda>s. laying_out (snd (snd s))"])
       (simp_all add: laying_out_render_part assms)
  then show ?thesis
    by (simp add: renderTextWithBold_def laying_out_setFontSize laying_out_setFont case_prod_beta)
qed

lemma laying_out_render_lines:
  assumes "laying_out st"
  shows "laying_out (render_lines env ls st)"
proof -
  let ?f = "\<lambda>line s. case s of (startY, st1) \<Rightarrow>
              renderTextWithBold env line (margin + 5) startY (maxContentWidth env - 5) st1"
  have "laying_out (snd (fold ?f ls (yPos st, st)))"
    by (rule fold_preserves [where P = "\<lambda>s. laying_out (snd s)"])
       (simp_all add: laying_out_renderTextWithBold assms case_prod_beta)
  then show ?thesis
    by (simp add: render_lines_def laying_out_yPos case_prod_beta)
qed

lemma laying_out_continued: "laying_out st \<Longrightarrow> laying_out (continued st)"
  by (simp add: continued_def laying_out_setFontSize laying_out_advance laying_out_write_lines)

lemma laying_out_render_item:
  assumes "laying_out st"
  shows "laying_out (render_item env extra t st)"
proof -
  have "laying_out (snd (checkPageBreak env k st))" for k
    using assms by (rule laying_out_checkPageBreak)
  then show ?thesis
    by (simp add: render_item_def Let_def laying_out_render_lines laying_out_continued case_prod_beta)
qed

lemma laying_out_reasons_loop: "laying_out st \<Longrightarrow> laying_out (reasons_loop env i rs st)"
  by (induction rs arbitrary: i st) (simp_all add: laying_out_render_item)

lemma laying_out_signals_loop: "laying_out st \<Longrightarrow> laying_out (signals_loop env ss st)"
  by (induction ss arbitrary: st) (simp_all add: laying_out_render_item)

lemmas laying_out_steps =
  laying_out_setFontSize laying_out_advance laying_out_write_lines laying_out_checkPageBreak

lemma laying_out_title_block: "laying_out st \<Longrightarrow> laying_out (title_block env st)"
  by (simp add: title_block_def Let_def laying_out_steps)

lemma laying_out_timestamp_block: "laying_out st \<Longrightarrow> laying_out (timestamp_block env st)"
  by (simp add: timestamp_block_def laying_out_steps)

lemma laying_out_file_block: "laying_out st \<Longrightarrow> laying_out (file_block env r st)"
  by (simp add: file_block_def Let_def laying_out_steps)

lemma laying_out_claim_block: "laying_out st \<Longrightarrow> laying_out (claim_block env r st)"
  by (simp add: claim_block_def Let_def laying_out_steps)

lemma laying_out_score_block: "laying_out st \<Longrightarrow> laying_out (score_block env r st)"
  by (simp add: score_block_def Let_def laying_out_steps)

lemma laying_out_verdict_block: "laying_out st \<Longrightarrow> laying_out (verdict_block env r st)"
  by (simp add: verdict_block_def Let_def laying_out_steps)

lemma laying_out_category_line: "laying_out st \<Longrightarrow> laying_out (category_line env cs cat st)"
  by (simp add: category_line_def laying_out_steps)

lemma laying_out_category_block:
  assumes "laying_out st"
  shows "laying_out (category_block env r st)"
proof (cases "category_scores r")
  case None
  with assms show ?thesis by (simp add: category_block_def)
next
  case (Some cs)
  have "laying_out (fold (category_line env cs) categories s)" if "laying_out s" for s
    using that by (rule fold_preserves [rotated]) (rule laying_out_category_line)
  with Some assms show ?thesis
    by (simp add: category_block_def Let_def laying_out_steps)
qed

lemma laying_out_reasons_block: "laying_out st \<Longrightarrow> laying_out (reasons_block env r st)"
  by (simp add: reasons_block_def Let_def laying_out_steps laying_out_reasons_loop)

lemma laying_out_signals_block: "laying_out st \<Longrightarrow> laying_out (signals_block env r st)"
  by (simp add: signals_block_def Let_def laying_out_steps laying_out_signals_loop)

lemma laying_out_body: "laying_out (body env r)"
  unfolding body_def
  by (intro laying_out_signals_block laying_out_reasons_block laying_out_category_block
        laying_out_verdict_block laying_out_score_block laying_out_claim_block
        laying_out_file_block laying_out_timestamp_block laying_out_title_block laying_out_new)

lemma stamp_footer_pages:
  "pages (stamp_footer env i st) =
     (pages st)[i - 1 := pages st ! (i - 1) @ [footer_stamp env (fontBold st)]]"
  by (simp add: stamp_footer_def pdf_text_def setFontSize_def setPage_def footer_stamp_def)

lemma stamp_footer_fontBold: "fontBold (stamp_footer env i st) = fontBold st"
  by (simp add: stamp_footer_def pdf_text_def setFontSize_def setPage_def)

lemma stamp_footers_prefix:
  assumes "k \<le> length (pages st)"
  shows "pages (fold (stamp_footer env) [1..<Suc k] st) =
           map (\<lambda>p. p @ [footer_stamp env (fontBold st)]) (take k (pages st)) @ drop k (pages st)
       \<and> fontBold (fold (stamp_footer env) [1..<Suc k] st) = fontBold st"
  using assms
proof (induction k)
  case 0
  then show ?case by simp
next
  case (Suc k)
  let ?f = "\<lambda>p. p @ [footer_stamp env (fontBold st)]"
  define st' where "st' = fold (stamp_footer env) [1..<Suc k] st"
  from Suc have k: "k < length (pages st)" by simp
  from Suc have ih: "pages st' = map ?f (take k (pages st)) @ drop k (pages st)"
    and fb: "fontBold st' = fontBold st"
    unfolding st'_def by simp_all
  have u: "fold (stamp_footer env) [1..<Suc (Suc k)] st = stamp_footer env (Suc k) st'"
    unfolding st'_def by simp
  have d: "drop k (pages st) = pages st ! k # drop (Suc k) (pages st)"
    using k by (simp add: Cons_nth_drop_Suc)
  have n: "pages st' ! k = pages st ! k"
    using k by (simp add: ih nth_append)
  have "pages (stamp_footer env (Suc k) st') = (pages st')[k := pages st ! k @ [footer_stamp env (fontBold st)]]"
    by (simp add: stamp_footer_pages fb n)
  also have "\<dots> = map ?f (take k (pages st)) @ ?f (pages st ! k) # drop (Suc k) (pages st)"
    using k by (simp add: ih d list_update_append)
  also have "\<dots> = map ?f (take (Suc k) (pages st)) @ drop (Suc k) (pages st)"
    using k by (simp add: take_Suc_conv_app_nth)
  finally show ?case
    unfolding u by (simp add: stamp_footer_fontBold fb)
qed

lemma stamp_footers_pages:
  "pages (stamp_footers env st) = map (\<lambda>p. p @ [footer_stamp env (fontBold st)]) (pages st)"
  using stamp_footers_prefix [of "length (pages st)" st env]
  by (simp add: stamp_footers_def)

section \<open>The footer\<close>

text \<open>
  Claim C9: whatever the result, the page size and the font, every page of the exported
  document carries exactly one footer stamp (the only centred text on the page, and the
  last thing written on it), the stamps of all pages are the same text at the same
  place, centred on the middle of the page, and the pages are those of the finished
  body with the stamp added to each: the stamping is a final pass over all pages.
\<close>

theorem C9_footer_on_every_page:
  "\<exists>st f. exportToPDF env (Some r) = Some st
      \<and> pages st \<noteq> []
      \<and> content f = [footerText] \<and> centered f
      \<and> at_x f = pageWidth env / 2 \<and> at_y f = pageHeight env - 8
      \<and> pages st = map (\<lambda>p. p @ [f]) (pages (body env r))
      \<and> list_all (\<lambda>p. filter centered p = [f] \<and> last p = f) (pages st)"
proof -
  let ?f = "footer_stamp env (fontBold (body env r))"
  let ?st = "stamp_footers env (body env r)"
  have b: "laying_out (body env r)"
    by (rule laying_out_body)
  have p: "pages ?st = map (\<lambda>p. p @ [?f]) (pages (body env r))"
    by (rule stamp_footers_pages)
  have "filter centered q = []" if "q \<in> set (pages (body env r))" for q
    using b that by (auto simp: laying_out_def left_aligned_def list_all_iff filter_empty_conv)
  then have "list_all (\<lambda>p. filter centered p = [?f] \<and> last p = ?f) (pages ?st)"
    unfolding p by (auto simp: list_all_iff footer_stamp_def)
  moreover have "pages ?st \<noteq> []"
    using b unfolding p by (auto simp: laying_out_def page_valid_def)
  moreover have "content ?f = [footerText] \<and> centered ?f
      \<and> at_x ?f = pageWidth env / 2 \<and> at_y ?f = pageHeight env - 8"
    by (simp add: footer_stamp_def)
  moreover have "exportToPDF env (Some r) = Some ?st"
    by (simp add: exportToPDF_def)
  ultimately show ?thesis
    using p by blast
qed

section \<open>Page breaks\<close>

text \<open>
  \<^verbatim>\<open>checkPageBreak\<close> starts a new page exactly when \<^verbatim>\<open>yPos\<close> and the space asked for
  pass the page height less the footer height.
\<close>

lemma checkPageBreak_iff:
  "fst (checkPageBreak env k st) \<longleftrightarrow> body_limit env < yPos st + k"
  by (simp add: checkPageBreak_def body_limit_def)

lemma checkPageBreak_new_page:
  assumes "body_limit env < yPos st + k"
  shows "pages (snd (checkPageBreak env k st)) = pages st @ [[]]"
    and "page (snd (checkPageBreak env k st)) = length (pages st) + 1"
    and "yPos (snd (checkPageBreak env k st)) = margin"
  using assms by (simp_all add: checkPageBreak_def body_limit_def addPage_def)

lemma checkPageBreak_same_page:
  assumes "\<not> body_limit env < yPos st + k"
  shows "snd (checkPageBreak env k st) = st"
  using assms by (simp add: checkPageBreak_def body_limit_def)

lemmas layout_defs =
  exportToPDF_def body_def title_block_def timestamp_block_def file_block_def filenameDisplay_def
  claim_block_def score_block_def verdict_block_def category_block_def reasons_block_def
  signals_block_def render_item_def render_lines_def renderTextWithBold_def render_part_def
  continued_def checkPageBreak_def split_text_def write_lines_def advance_def pdf_text_def
  setFontSize_def setFont_def addPage_def setPage_def new_pdf_def margin_def footerHeight_def
  maxContentWidth_def stamp_footers_def stamp_footer_def body_limit_def
  highlightRiskyWords_def isRisky_def split_spaces_def is_space_def toLowerCase_def lower_unit_def
  is_punctuation_def riskyWords_def sanitizeTextForPDF_def sanitize_unit_def ascii_def
  a4_fixed_pitch_def long_verdict_result_def long_verdict_def Let_def

lemma score_35_text: "num_to_string decimal_runtime (Fin 35) = ''35''"
  by code_simp

lemma replicate_numeral: "replicate (numeral k) x = x # replicate (pred_numeral k) x"
  by (simp add: numeral_eq_Suc)

text \<open>
  Claim C7 says that a new page is started before a block whenever the cursor and the
  space the block takes pass the page height less the footer height, and that no page
  carries body text beyond that limit. The verdict block asks \<^verbatim>\<open>checkPageBreak\<close> for
  20 whatever the number of its lines (line 474), where the reasons and the signals ask
  for 7 a line (lines 581 and 615). On an A4 page the limit is 282. A verdict of 60
  lines is written on the first page at 85: by the program's own count of 7 a line and
  8 the block runs to 513, and no page was started for it.
\<close>

theorem C7_verdict_overflows:
  "case exportToPDF a4_fixed_pitch (Some long_verdict_result) of
     Some st \<Rightarrow>
       length (pages st) = 2
       \<and> list_ex (\<lambda>d. content d = ascii ''Verdict: x'' # replicate 59 (ascii ''x'')
                     \<and> at_y d = 85
                     \<and> body_limit a4_fixed_pitch < at_y d + 7 * of_nat (length (content d)) + 8)
            (hd (pages st))
   | None \<Rightarrow> False"
  by (simp add: layout_defs score_35_text replicate_numeral)

end
